theory Spec2Isabelle
  imports Complex_Main "HOL-Library.Monad_Syntax" "HOL-Library.AList"
begin

section \<open>Python values\<close>

text \<open>
  The program (\<^verbatim>\<open>ai_friend_app.py\<close>) keeps all of its data in one JSON document that
  it reads with \<^verbatim>\<open>json.load\<close>, mutates as nested Python dicts and lists, and writes
  back with \<^verbatim>\<open>json.dump\<close>. The embedding therefore works on JSON values with
  Python's dynamic behaviour written out.

  \<^item> A Python \<^verbatim>\<open>str\<close> is a list of code points. The model uses \<^typ>\<open>char\<close>, whose 256
    values are read as the code points U+0000 to U+00FF (ASCII and Latin-1); every string
    of the program text lies in that range. \<^verbatim>\<open>CHR 0xE1\<close> is the letter a with acute.
  \<^item> A \<^verbatim>\<open>float\<close> is modelled by the rational number it denotes (not-a-number and the
    infinities, which standard JSON does not have, are left out).
  \<^item> A \<^verbatim>\<open>dict\<close> is an association list in insertion order; \<^verbatim>\<open>d.get(k)\<close> is
    \<^const>\<open>map_of\<close>, \<^verbatim>\<open>d[k] = v\<close> is \<^const>\<open>AList.update\<close>, which replaces the value in
    place or appends a new key at the end, as Python does.
  \<^item> A statement that raises is \<^const>\<open>None\<close> in the option monad.
\<close>

datatype json =
    JNull
  | JBool bool
  | JInt int
  | JFloat rat
  | JStr string
  | JList "json list"
  | JDict "(string \<times> json) list"

text \<open>Truth value testing, as used by \<^verbatim>\<open>x or y\<close> and \<^verbatim>\<open>if not s\<close>.\<close>

fun truthy :: "json \<Rightarrow> bool" where
  "truthy JNull = False"
| "truthy (JBool b) = b"
| "truthy (JInt n) = (n \<noteq> 0)"
| "truthy (JFloat r) = (r \<noteq> 0)"
| "truthy (JStr s) = (s \<noteq> [])"
| "truthy (JList xs) = (xs \<noteq> [])"
| "truthy (JDict d) = (d \<noteq> [])"

definition py_or :: "json \<Rightarrow> json \<Rightarrow> json" where
  "py_or x y = (if truthy x then x else y)"

text \<open>\<^verbatim>\<open>d.get(k)\<close> and \<^verbatim>\<open>d.get(k, default)\<close>: AttributeError unless \<^verbatim>\<open>d\<close> is a dict.\<close>

fun get :: "json \<Rightarrow> string \<Rightarrow> json option" where
  "get (JDict d) k = Some (case map_of d k of None \<Rightarrow> JNull | Some v \<Rightarrow> v)"
| "get _ k = None"

fun get_default :: "json \<Rightarrow> string \<Rightarrow> json \<Rightarrow> json option" where
  "get_default (JDict d) k dflt = Some (case map_of d k of None \<Rightarrow> dflt | Some v \<Rightarrow> v)"
| "get_default _ k dflt = None"

text \<open>\<^verbatim>\<open>d[k]\<close> (KeyError when the key is missing) and \<^verbatim>\<open>d[k] = v\<close> on a dict.\<close>

fun subscript :: "json \<Rightarrow> string \<Rightarrow> json option" where
  "subscript (JDict d) k = map_of d k"
| "subscript _ k = None"

fun set_item :: "json \<Rightarrow> string \<Rightarrow> json \<Rightarrow> json option" where
  "set_item (JDict d) k v = Some (JDict (AList.update k v d))"
| "set_item _ k v = None"

text \<open>\<^verbatim>\<open>d.items()\<close>: AttributeError unless \<^verbatim>\<open>d\<close> is a dict.\<close>

fun dict_items :: "json \<Rightarrow> (string \<times> json) list option" where
  "dict_items (JDict d) = Some d"
| "dict_items _ = None"

text \<open>
  \<^verbatim>\<open>for x in v\<close>: a list yields its elements, a string its one-character strings, a
  dict its keys; anything else is not iterable (TypeError).
\<close>

fun py_iter :: "json \<Rightarrow> json list option" where
  "py_iter (JList xs) = Some xs"
| "py_iter (JStr s) = Some (map (\<lambda>c. JStr [c]) s)"
| "py_iter (JDict d) = Some (map (\<lambda>kv. JStr (fst kv)) d)"
| "py_iter _ = None"

text \<open>\<^verbatim>\<open>v[-n:]\<close>: the last \<open>n\<close> elements of a list or string; no other JSON value can be sliced.\<close>

definition last_n :: "nat \<Rightarrow> 'a list \<Rightarrow> 'a list" where
  "last_n n xs = drop (length xs - n) xs"

fun slice_last :: "nat \<Rightarrow> json \<Rightarrow> json option" where
  "slice_last n (JList xs) = Some (JList (last_n n xs))"
| "slice_last n (JStr s) = Some (JStr (last_n n s))"
| "slice_last n _ = None"

section \<open>Strings: \<^verbatim>\<open>strip\<close>, \<^verbatim>\<open>lower\<close>, \<^verbatim>\<open>normalize_str\<close>\<close>

text \<open>
  \<^verbatim>\<open>str.isspace\<close> on U+0000..U+00FF holds for U+0009..U+000D, U+001C..U+0020, U+0085 and
  U+00A0; \<^verbatim>\<open>str.strip()\<close> removes those characters from both ends.
\<close>

definition is_space :: "char \<Rightarrow> bool" where
  "is_space c = (let n = (of_char c :: nat) in
     (0x09 \<le> n \<and> n \<le> 0x0D) \<or> (0x1C \<le> n \<and> n \<le> 0x20) \<or> n = 0x85 \<or> n = 0xA0)"

definition strip :: "string \<Rightarrow> string" where
  "strip s = rev (dropWhile is_space (rev (dropWhile is_space s)))"

text \<open>\<^verbatim>\<open>x.strip()\<close> on a JSON value: only \<^verbatim>\<open>str\<close> has the method.\<close>

fun str_strip :: "json \<Rightarrow> string option" where
  "str_strip (JStr s) = Some (strip s)"
| "str_strip _ = None"

text \<open>
  \<^verbatim>\<open>str.lower()\<close> on U+0000..U+00FF: the upper-case letters are U+0041..U+005A and
  U+00C0..U+00DE without U+00D7 (the multiplication sign); each maps to the code point
  32 higher, which is the same code point with bit 5 set.
\<close>

definition is_upper :: "char \<Rightarrow> bool" where
  "is_upper c = (let n = (of_char c :: nat) in
     (0x41 \<le> n \<and> n \<le> 0x5A) \<or> (0xC0 \<le> n \<and> n \<le> 0xDE \<and> n \<noteq> 0xD7))"

definition lower_char :: "char \<Rightarrow> char" where
  "lower_char c = (if is_upper c
     then (case c of Char b0 b1 b2 b3 b4 b5 b6 b7 \<Rightarrow> Char b0 b1 b2 b3 b4 True b6 b7)
     else c)"

definition lower :: "string \<Rightarrow> string" where
  "lower s = map lower_char s"

text \<open>
  \<^verbatim>\<open>
  def normalize(s):
      if not s: return ""
      repl = {U+00E1:"a", U+00E9:"e", U+00ED:"i", U+00F3:"o", U+00FA:"u", U+00F1:"n", U+00FC:"u"}
      return "".join(repl.get(ch,ch) for ch in s).lower().strip()
  \<close>
  The keys of the table are U+00E1, U+00E9, U+00ED, U+00F3, U+00FA, U+00F1 and U+00FC.
\<close>

definition repl :: "(char \<times> char) list" where
  "repl = [(CHR 0xE1, CHR ''a''), (CHR 0xE9, CHR ''e''), (CHR 0xED, CHR ''i''),
           (CHR 0xF3, CHR ''o''), (CHR 0xFA, CHR ''u''), (CHR 0xF1, CHR ''n''),
           (CHR 0xFC, CHR ''u'')]"

definition repl_get :: "char \<Rightarrow> char" where
  "repl_get ch = (case map_of repl ch of None \<Rightarrow> ch | Some r \<Rightarrow> r)"

definition normalize_str :: "string \<Rightarrow> string" where
  "normalize_str s = (if s = [] then [] else strip (lower (map repl_get s)))"

section \<open>Time, integer conversion, hashing\<close>

text \<open>
  \<^verbatim>\<open>
  def now_iso():
      return datetime.utcnow().isoformat() + "Z"
  \<close>
  Every call reads the clock again. The clock is the sequence of the readings still to
  come (the ISO text of each); a call takes the first and leaves the rest.
\<close>

type_synonym clock = "nat \<Rightarrow> string"

definition now_iso :: "clock \<Rightarrow> json \<times> clock" where
  "now_iso clk = (JStr (clk 0 @ ''Z''), \<lambda>n. clk (Suc n))"

text \<open>
  \<^verbatim>\<open>int(x)\<close>: a bool gives 0 or 1, an int itself, a float is truncated towards zero,
  \<^verbatim>\<open>None\<close>, lists and dicts raise TypeError. For a string Python parses a decimal
  literal or raises ValueError; that parser is the parameter \<open>I\<close> of the model, so
  every theorem holds whatever it accepts.
\<close>

fun py_int :: "(string \<Rightarrow> int option) \<Rightarrow> json \<Rightarrow> int option" where
  "py_int I (JBool b) = Some (if b then 1 else 0)"
| "py_int I (JInt n) = Some n"
| "py_int I (JFloat r) = Some (if 0 \<le> r then floor r else ceiling r)"
| "py_int I (JStr s) = I s"
| "py_int I JNull = None"
| "py_int I (JList xs) = None"
| "py_int I (JDict d) = None"

text \<open>
  A set of tuples hashes every component: a list or a dict inside the tuple raises
  TypeError, and numbers are equal across \<^verbatim>\<open>bool\<close>, \<^verbatim>\<open>int\<close> and \<^verbatim>\<open>float\<close>
  (\<^verbatim>\<open>True == 1 == 1.0\<close>). \<open>hash_key\<close> gives the value up to that equality.
\<close>

datatype hval = HNone | HNum rat | HStr string

fun hash_key :: "json \<Rightarrow> hval option" where
  "hash_key JNull = Some HNone"
| "hash_key (JBool b) = Some (HNum (if b then 1 else 0))"
| "hash_key (JInt n) = Some (HNum (of_int n))"
| "hash_key (JFloat r) = Some (HNum r)"
| "hash_key (JStr s) = Some (HStr s)"
| "hash_key (JList xs) = None"
| "hash_key (JDict d) = None"

section \<open>Deduplication\<close>

subsection \<open>Vocabulary (\<^verbatim>\<open>deduplicate_user\<close>, first loop)\<close>

text \<open>
  \<^verbatim>\<open>
  for lang, vlist in list(mem.get("custom_vocab", {}).items()):
      seen = set(); unique=[]
      for it in vlist:
          native = (it.get("native") or "").strip()
          target = (it.get("target") or it.get("correct_answer") or "").strip()
          topic = (it.get("topic") or "").strip()
          level = int(it.get("level") or 1)
          key = (normalize(native), normalize(target), topic, level)
          if key not in seen:
              seen.add(key)
              unique.append({"native": native, "target": target, "topic": topic,
                             "level": level, "last_used": it.get("last_used") or now_iso()})
      mem["custom_vocab"][lang] = unique
  \<close>
\<close>

type_synonym vfields = "string \<times> string \<times> string \<times> int"

type_synonym vkey = "string \<times> string \<times> string \<times> int"

definition vocab_fields :: "(string \<Rightarrow> int option) \<Rightarrow> json \<Rightarrow> vfields option" where
  "vocab_fields I it = do {
     n0 \<leftarrow> get it ''native'';
     native \<leftarrow> str_strip (py_or n0 (JStr []));
     t0 \<leftarrow> get it ''target'';
     c0 \<leftarrow> get it ''correct_answer'';
     target \<leftarrow> str_strip (py_or (py_or t0 c0) (JStr []));
     p0 \<leftarrow> get it ''topic'';
     topic \<leftarrow> str_strip (py_or p0 (JStr []));
     l0 \<leftarrow> get it ''level'';
     level \<leftarrow> py_int I (py_or l0 (JInt 1));
     Some (native, target, topic, level)
   }"

definition vocab_key :: "vfields \<Rightarrow> vkey" where
  "vocab_key f = (case f of (native, target, topic, level) \<Rightarrow>
     (normalize_str native, normalize_str target, topic, level))"

definition vocab_record :: "vfields \<Rightarrow> json \<Rightarrow> json" where
  "vocab_record f lu = (case f of (native, target, topic, level) \<Rightarrow>
     JDict [(''native'', JStr native), (''target'', JStr target), (''topic'', JStr topic),
            (''level'', JInt level), (''last_used'', lu)])"

text \<open>\<^verbatim>\<open>x or now_iso()\<close>: the clock is read only when \<open>x\<close> is falsy.\<close>

definition or_now :: "json \<Rightarrow> clock \<Rightarrow> json \<times> clock" where
  "or_now x clk = (if truthy x then (x, clk) else now_iso clk)"

fun vocab_loop ::
  "(string \<Rightarrow> int option) \<Rightarrow> json list \<Rightarrow> vkey set \<Rightarrow> json list \<Rightarrow> clock
     \<Rightarrow> (json list \<times> clock) option" where
  "vocab_loop I [] seen unique clk = Some (unique, clk)"
| "vocab_loop I (it # its) seen unique clk =
     (case vocab_fields I it of
        None \<Rightarrow> None
      | Some f \<Rightarrow>
          if vocab_key f \<notin> seen then
            (case get it ''last_used'' of
               None \<Rightarrow> None
             | Some lu0 \<Rightarrow>
                 vocab_loop I its (insert (vocab_key f) seen)
                   (unique @ [vocab_record f (fst (or_now lu0 clk))]) (snd (or_now lu0 clk)))
          else vocab_loop I its seen unique clk)"

fun vocab_langs ::
  "(string \<Rightarrow> int option) \<Rightarrow> (string \<times> json) list \<Rightarrow> clock
     \<Rightarrow> ((string \<times> json) list \<times> clock) option" where
  "vocab_langs I [] clk = Some ([], clk)"
| "vocab_langs I (lv # rest) clk =
     (case py_iter (snd lv) of
        None \<Rightarrow> None
      | Some its \<Rightarrow>
          (case vocab_loop I its {} [] clk of
             None \<Rightarrow> None
           | Some (unique, clk1) \<Rightarrow>
               (case vocab_langs I rest clk1 of
                  None \<Rightarrow> None
                | Some (rest', clk2) \<Rightarrow> Some ((fst lv, JList unique) # rest', clk2))))"

subsection \<open>History (\<^verbatim>\<open>deduplicate_user\<close>, second loop)\<close>

text \<open>
  \<^verbatim>\<open>
  seen=set(); unique=[]
  for turn in mem.get("conversation_history", []):
      u = (turn.get("your") or turn.get("user") or "").strip()
      a = (turn.get("ai") or turn.get("reply") or "").strip()
      l = turn.get("lang") or mem.get("lang") or ""
      key = (normalize(u), normalize(a), l)
      if key not in seen:
          seen.add(key)
          unique.append({"when": turn.get("when") or now_iso(), "prompt": turn.get("prompt") or "",
                         "your": u, "target": turn.get("target") or "", "score": turn.get("score")})
  mem["conversation_history"] = unique[-500:]
  \<close>
\<close>

type_synonym hkey = "string \<times> string \<times> hval"

definition history_fields :: "json \<Rightarrow> json \<Rightarrow> (string \<times> hkey) option" where
  "history_fields mem turn = do {
     y0 \<leftarrow> get turn ''your'';
     u0 \<leftarrow> get turn ''user'';
     u \<leftarrow> str_strip (py_or (py_or y0 u0) (JStr []));
     a0 \<leftarrow> get turn ''ai'';
     r0 \<leftarrow> get turn ''reply'';
     a \<leftarrow> str_strip (py_or (py_or a0 r0) (JStr []));
     tl \<leftarrow> get turn ''lang'';
     ml \<leftarrow> get mem ''lang'';
     l \<leftarrow> hash_key (py_or (py_or tl ml) (JStr []));
     Some (u, (normalize_str u, normalize_str a, l))
   }"

definition history_record :: "json \<Rightarrow> json \<Rightarrow> string \<Rightarrow> json \<Rightarrow> json \<Rightarrow> json" where
  "history_record w p u t s =
     JDict [(''when'', w), (''prompt'', p), (''your'', JStr u), (''target'', t), (''score'', s)]"

definition rebuild_turn :: "json \<Rightarrow> string \<Rightarrow> clock \<Rightarrow> (json \<times> clock) option" where
  "rebuild_turn turn u clk = do {
     w0 \<leftarrow> get turn ''when'';
     p0 \<leftarrow> get turn ''prompt'';
     t0 \<leftarrow> get turn ''target'';
     s0 \<leftarrow> get turn ''score'';
     Some (history_record (fst (or_now w0 clk)) (py_or p0 (JStr [])) u (py_or t0 (JStr [])) s0,
           snd (or_now w0 clk))
   }"

fun history_loop ::
  "json \<Rightarrow> json list \<Rightarrow> hkey set \<Rightarrow> json list \<Rightarrow> clock \<Rightarrow> (json list \<times> clock) option" where
  "history_loop mem [] seen unique clk = Some (unique, clk)"
| "history_loop mem (turn # turns) seen unique clk =
     (case history_fields mem turn of
        None \<Rightarrow> None
      | Some (u, key) \<Rightarrow>
          if key \<notin> seen then
            (case rebuild_turn turn u clk of
               None \<Rightarrow> None
             | Some (r, clk') \<Rightarrow> history_loop mem turns (insert key seen) (unique @ [r]) clk')
          else history_loop mem turns seen unique clk)"

subsection \<open>\<^verbatim>\<open>deduplicate_user\<close>, \<^verbatim>\<open>deduplicate_global\<close>, \<^verbatim>\<open>save_global\<close>\<close>

text \<open>
  After the two loops \<^verbatim>\<open>deduplicate_user\<close> ends with
  \<^verbatim>\<open>
  mem["stats"]["recent"] = mem["stats"].get("recent", [])[-200:]
  return mem
  \<close>
  The first loop assigns into the dict that \<^verbatim>\<open>mem["custom_vocab"]\<close> holds; when the key
  is missing the default \<^verbatim>\<open>{}\<close> has no items and nothing is assigned.
\<close>

definition deduplicate_user ::
  "(string \<Rightarrow> int option) \<Rightarrow> json \<Rightarrow> clock \<Rightarrow> (json \<times> clock) option" where
  "deduplicate_user I mem clk = do {
     cv \<leftarrow> get_default mem ''custom_vocab'' (JDict []);
     items \<leftarrow> dict_items cv;
     (items', clk1) \<leftarrow> vocab_langs I items clk;
     mem1 \<leftarrow> (if items = [] then Some mem else set_item mem ''custom_vocab'' (JDict items'));
     hist \<leftarrow> get_default mem1 ''conversation_history'' (JList []);
     turns \<leftarrow> py_iter hist;
     (unique, clk2) \<leftarrow> history_loop mem1 turns {} [] clk1;
     mem2 \<leftarrow> set_item mem1 ''conversation_history'' (JList (last_n 500 unique));
     stats \<leftarrow> subscript mem2 ''stats'';
     recent \<leftarrow> get_default stats ''recent'' (JList []);
     recent' \<leftarrow> slice_last 200 recent;
     stats' \<leftarrow> set_item stats ''recent'' recent';
     mem3 \<leftarrow> set_item mem2 ''stats'' stats';
     Some (mem3, clk2)
   }"

text \<open>
  \<^verbatim>\<open>
  def deduplicate_global(data):
      users = data.get("users", {})
      for uname, udata in users.items():
          users[uname] = deduplicate_user(udata)
      data["users"] = users
      return data
  \<close>
  The keys of a dict are unique, so \<^verbatim>\<open>users[uname] = ...\<close> replaces the value of the
  item being visited.
\<close>

fun dedup_users ::
  "(string \<Rightarrow> int option) \<Rightarrow> (string \<times> json) list \<Rightarrow> clock
     \<Rightarrow> ((string \<times> json) list \<times> clock) option" where
  "dedup_users I [] clk = Some ([], clk)"
| "dedup_users I (uu # rest) clk =
     (case deduplicate_user I (snd uu) clk of
        None \<Rightarrow> None
      | Some (udata', clk1) \<Rightarrow>
          (case dedup_users I rest clk1 of
             None \<Rightarrow> None
           | Some (rest', clk2) \<Rightarrow> Some ((fst uu, udata') # rest', clk2)))"

definition deduplicate_global ::
  "(string \<Rightarrow> int option) \<Rightarrow> json \<Rightarrow> clock \<Rightarrow> (json \<times> clock) option" where
  "deduplicate_global I data clk = do {
     users \<leftarrow> get_default data ''users'' (JDict []);
     items \<leftarrow> dict_items users;
     (items', clk') \<leftarrow> dedup_users I items clk;
     data' \<leftarrow> set_item data ''users'' (JDict items');
     Some (data', clk')
   }"

text \<open>
  \<^verbatim>\<open>
  def save_global(data):
      data = deduplicate_global(data)
      with open(GLOBAL_FILE, "w", encoding="utf-8") as f:
          json.dump(data, f, ensure_ascii=False, indent=2)
  \<close>
  The result of the model is the document that is written (which is also the state of
  the in-memory store, mutated in place).
\<close>

definition save_global ::
  "(string \<Rightarrow> int option) \<Rightarrow> json \<Rightarrow> clock \<Rightarrow> (json \<times> clock) option" where
  "save_global I data clk = deduplicate_global I data clk"

section \<open>Loading the store\<close>

text \<open>
  \<^verbatim>\<open>
  def load_global():
      if Path(GLOBAL_FILE).exists():
          try:
              with open(GLOBAL_FILE, "r", encoding="utf-8") as f:
                  data = json.load(f)
              # ensure shape
              if "users" not in data:
                  data = {"users": data}
              return data
          except Exception:
              return {"users": {}}
      return {"users": {}}
  \<close>
  \<^verbatim>\<open>Path.exists()\<close> calls \<^verbatim>\<open>stat\<close>. It returns False when \<^verbatim>\<open>stat\<close> raises an \<^verbatim>\<open>OSError\<close>
  with the errno ENOENT, ENOTDIR, EBADF or ELOOP, or a \<^verbatim>\<open>ValueError\<close>; every other
  \<^verbatim>\<open>OSError\<close>, such as the \<^verbatim>\<open>PermissionError\<close> of a directory that may not be searched,
  it raises again. The call stands before the \<^verbatim>\<open>try\<close>, so that exception leaves
  \<^verbatim>\<open>load_global\<close>.

  The file system is reduced to what the function can observe: \<^verbatim>\<open>stat\<close> fails with an
  error that \<^verbatim>\<open>exists()\<close> raises again; or there is no file; or there is one and
  opening, decoding or parsing it raises; or \<^verbatim>\<open>json.load\<close> returns a document. What
  \<^verbatim>\<open>open\<close>, the decoder and \<^verbatim>\<open>json.load\<close> raise (\<^verbatim>\<open>OSError\<close>, \<^verbatim>\<open>UnicodeDecodeError\<close>,
  \<^verbatim>\<open>JSONDecodeError\<close>, \<^verbatim>\<open>RecursionError\<close>) is of class \<^verbatim>\<open>Exception\<close>, which the handler
  catches.
\<close>

datatype disk = Inaccessible | NoFile | Unparsable | Parsed json

text \<open>\<^verbatim>\<open>Path(GLOBAL_FILE).exists()\<close>; \<^const>\<open>None\<close> is the \<^verbatim>\<open>OSError\<close> that it raises again.\<close>

definition file_exists :: "disk \<Rightarrow> bool option" where
  "file_exists d = (case d of
       Inaccessible \<Rightarrow> None
     | NoFile \<Rightarrow> Some False
     | Unparsable \<Rightarrow> Some True
     | Parsed data \<Rightarrow> Some True)"

text \<open>
  \<^verbatim>\<open>k in v\<close> for a string \<open>k\<close>: a key of a dict, an element of a list, a substring of a
  string; TypeError on \<^verbatim>\<open>None\<close>, booleans and numbers.
\<close>

definition is_substring :: "string \<Rightarrow> string \<Rightarrow> bool" where
  "is_substring k s = list_ex (\<lambda>n. take (length k) (drop n s) = k) [0..<Suc (length s)]"

fun py_in :: "string \<Rightarrow> json \<Rightarrow> bool option" where
  "py_in k (JDict d) = Some (k \<in> fst ` set d)"
| "py_in k (JList xs) = Some (JStr k \<in> set xs)"
| "py_in k (JStr s) = Some (is_substring k s)"
| "py_in k _ = None"

definition empty_store :: json where
  "empty_store = JDict [(''users'', JDict [])]"

text \<open>The body of the \<^verbatim>\<open>try\<close> block; \<^const>\<open>None\<close> is an exception raised inside it.\<close>

definition load_try :: "disk \<Rightarrow> json option" where
  "load_try d = (case d of
       Inaccessible \<Rightarrow> None
     | NoFile \<Rightarrow> None
     | Unparsable \<Rightarrow> None
     | Parsed data \<Rightarrow>
         (case py_in ''users'' data of
            None \<Rightarrow> None
          | Some present \<Rightarrow> Some (if \<not> present then JDict [(''users'', data)] else data)))"

text \<open>The whole function; \<^const>\<open>None\<close> is an exception that leaves \<^verbatim>\<open>load_global\<close>.\<close>

definition load_global :: "disk \<Rightarrow> json option" where
  "load_global d =
     (case file_exists d of
        None \<Rightarrow> None
      | Some found \<Rightarrow>
          if found then
            (case load_try d of Some data \<Rightarrow> Some data | None \<Rightarrow> Some empty_store)
          else Some empty_store)"

section \<open>Similarity\<close>

text \<open>
  \<^verbatim>\<open>
  def fuzzy_ratio(a,b):
      return difflib.SequenceMatcher(a=normalize(a), b=normalize(b)).ratio()
  \<close>
  \<^verbatim>\<open>SequenceMatcher\<close> is the standard library's; it is called without a junk predicate
  and with \<^verbatim>\<open>autojunk\<close> at its default. The definitions below follow
  \<^verbatim>\<open>difflib.py\<close>.

  \<^verbatim>\<open>__chain_b\<close> indexes the positions of each element of \<open>b\<close>; when \<open>b\<close> has 200 or more
  elements, an element occurring more than \<open>len(b) // 100 + 1\<close> times is dropped from the
  index. \<open>b2j b elt\<close> is \<^verbatim>\<open>b2j.get(elt, [])\<close>.
\<close>

definition b2j :: "'a list \<Rightarrow> 'a \<Rightarrow> nat list" where
  "b2j b elt = (let idxs = filter (\<lambda>j. b ! j = elt) [0..<length b] in
     if 200 \<le> length b \<and> length b div 100 + 1 < length idxs then [] else idxs)"

text \<open>
  \<^verbatim>\<open>
  for j in b2j.get(a[i], nothing):
      if j < blo: continue
      if j >= bhi: break
      k = newj2len[j] = j2lenget(j-1, 0) + 1
      if k > bestsize:
          besti, bestj, bestsize = i-k+1, j-k+1, k
  \<close>
  The state is \<open>(newj2len, besti, bestj, bestsize)\<close>. Indices are natural numbers; the
  key \<open>j-1\<close> of the lookup is \<open>-1\<close> for \<open>j = 0\<close>, which is never a key.
\<close>

type_synonym flm_state = "(nat \<rightharpoonup> nat) \<times> nat \<times> nat \<times> nat"

fun flm_inner ::
  "(nat \<rightharpoonup> nat) \<Rightarrow> nat \<Rightarrow> nat \<Rightarrow> nat \<Rightarrow> nat list \<Rightarrow> flm_state \<Rightarrow> flm_state" where
  "flm_inner j2len i blo bhi [] st = st"
| "flm_inner j2len i blo bhi (j # js) st =
     (if j < blo then flm_inner j2len i blo bhi js st
      else if bhi \<le> j then st
      else (case st of (newj2len, besti, bestj, bestsize) \<Rightarrow>
        let k = (if j = 0 then 0 else (case j2len (j - 1) of None \<Rightarrow> 0 | Some v \<Rightarrow> v)) + 1 in
        if bestsize < k
        then flm_inner j2len i blo bhi js (newj2len(j \<mapsto> k), i + 1 - k, j + 1 - k, k)
        else flm_inner j2len i blo bhi js (newj2len(j \<mapsto> k), besti, bestj, bestsize)))"

text \<open>
  \<^verbatim>\<open>
  for i in range(alo, ahi):
      newj2len = {}
      (inner loop)
      j2len = newj2len
  \<close>
\<close>

fun flm_outer ::
  "'a list \<Rightarrow> 'a list \<Rightarrow> nat \<Rightarrow> nat \<Rightarrow> nat list \<Rightarrow> flm_state \<Rightarrow> flm_state" where
  "flm_outer a b blo bhi [] st = st"
| "flm_outer a b blo bhi (i # is) st =
     (case st of (j2len, besti, bestj, bestsize) \<Rightarrow>
        flm_outer a b blo bhi is
          (flm_inner j2len i blo bhi (b2j b (a ! i)) (Map.empty, besti, bestj, bestsize)))"

text \<open>
  \<^verbatim>\<open>
  while besti > alo and bestj > blo and not isbjunk(b[bestj-1]) and a[besti-1] == b[bestj-1]:
      besti, bestj, bestsize = besti-1, bestj-1, bestsize+1
  while besti+bestsize < ahi and bestj+bestsize < bhi and \
        not isbjunk(b[bestj+bestsize]) and a[besti+bestsize] == b[bestj+bestsize]:
      bestsize += 1
  \<close>
  No element is junk, so the two further loops of \<^verbatim>\<open>find_longest_match\<close>, which extend
  over junk only, never run.
\<close>

function extend_left ::
  "'a list \<Rightarrow> 'a list \<Rightarrow> nat \<Rightarrow> nat \<Rightarrow> nat \<times> nat \<times> nat \<Rightarrow> nat \<times> nat \<times> nat" where
  "extend_left a b alo blo (besti, bestj, bestsize) =
     (if alo < besti \<and> blo < bestj \<and> a ! (besti - 1) = b ! (bestj - 1)
      then extend_left a b alo blo (besti - 1, bestj - 1, bestsize + 1)
      else (besti, bestj, bestsize))"
  by pat_completeness auto
termination
  by (relation "measure (\<lambda>(a, b, alo, blo, besti, bestj, bestsize). besti)") auto

function extend_right ::
  "'a list \<Rightarrow> 'a list \<Rightarrow> nat \<Rightarrow> nat \<Rightarrow> nat \<times> nat \<times> nat \<Rightarrow> nat \<times> nat \<times> nat" where
  "extend_right a b ahi bhi (besti, bestj, bestsize) =
     (if besti + bestsize < ahi \<and> bestj + bestsize < bhi
         \<and> a ! (besti + bestsize) = b ! (bestj + bestsize)
      then extend_right a b ahi bhi (besti, bestj, bestsize + 1)
      else (besti, bestj, bestsize))"
  by pat_completeness auto
termination
  by (relation "measure (\<lambda>(a, b, ahi, bhi, besti, bestj, bestsize). ahi - (besti + bestsize))") auto

definition find_longest_match ::
  "'a list \<Rightarrow> 'a list \<Rightarrow> nat \<Rightarrow> nat \<Rightarrow> nat \<Rightarrow> nat \<Rightarrow> nat \<times> nat \<times> nat" where
  "find_longest_match a b alo ahi blo bhi =
     extend_right a b ahi bhi
       (extend_left a b alo blo
          (snd (flm_outer a b blo bhi [alo..<ahi] (Map.empty, alo, blo, 0))))"

text \<open>
  \<^verbatim>\<open>
  queue = [(0, la, 0, lb)]
  matching_blocks = []
  while queue:
      alo, ahi, blo, bhi = queue.pop()
      i, j, k = x = self.find_longest_match(alo, ahi, blo, bhi)
      if k:
          matching_blocks.append(x)
          if alo < i and blo < j:
              queue.append((alo, i, blo, j))
          if i+k < ahi and j+k < bhi:
              queue.append((i+k, ahi, j+k, bhi))
  \<close>
  The queue is a stack: its head below is the last element of the Python list.
  \<^verbatim>\<open>ratio\<close> only sums the sizes of the blocks, which the later sorting and joining of
  adjacent blocks do not change.
\<close>

partial_function (option) matching_loop ::
  "'a list \<Rightarrow> 'a list \<Rightarrow> (nat \<times> nat \<times> nat \<times> nat) list \<Rightarrow> (nat \<times> nat \<times> nat) list
     \<Rightarrow> (nat \<times> nat \<times> nat) list option" where
  "matching_loop a b queue matching_blocks =
     (case queue of
        [] \<Rightarrow> Some matching_blocks
      | (alo, ahi, blo, bhi) # rest \<Rightarrow>
          (case find_longest_match a b alo ahi blo bhi of (i, j, k) \<Rightarrow>
             if k \<noteq> 0 then
               matching_loop a b
                 ((if i + k < ahi \<and> j + k < bhi then [(i + k, ahi, j + k, bhi)] else [])
                  @ (if alo < i \<and> blo < j then [(alo, i, blo, j)] else []) @ rest)
                 (matching_blocks @ [(i, j, k)])
             else matching_loop a b rest matching_blocks))"

declare matching_loop.simps [code]

text \<open>
  \<^verbatim>\<open>
  def _calculate_ratio(matches, length):
      if length:
          return 2.0 * matches / length
      return 1.0

  def ratio(self):
      matches = sum(triple[-1] for triple in self.get_matching_blocks())
      return _calculate_ratio(matches, len(self.a) + len(self.b))
  \<close>
  The quotient is a float in Python; the model keeps the exact rational, of which the
  float is the correctly rounded value.
\<close>

definition calculate_ratio :: "nat \<Rightarrow> nat \<Rightarrow> rat" where
  "calculate_ratio matches len = (if len \<noteq> 0 then 2 * of_nat matches / of_nat len else 1)"

definition ratio :: "'a list \<Rightarrow> 'a list \<Rightarrow> rat option" where
  "ratio a b =
     (case matching_loop a b [(0, length a, 0, length b)] [] of
        None \<Rightarrow> None
      | Some blocks \<Rightarrow>
          Some (calculate_ratio (sum_list (map (\<lambda>t. snd (snd t)) blocks)) (length a + length b)))"

definition fuzzy_ratio :: "string \<Rightarrow> string \<Rightarrow> rat option" where
  "fuzzy_ratio a b = ratio (normalize_str a) (normalize_str b)"

definition score_answer :: "string \<Rightarrow> string \<Rightarrow> rat option" where
  "score_answer user_text target = fuzzy_ratio user_text target"

section \<open>The practice prompt\<close>

text \<open>
  The handler of the action ``Practice prompt'' scores the answer and updates the user:
  \<^verbatim>\<open>
  score = score_answer(text, item.get("target",""))
  correct = score >= 0.65
  if correct:
      user_mem["stats"]["correct"] += 1
  else:
      user_mem["stats"]["wrong"] += 1
      add_attempt_to_vocab(...)
  # update recent window
  user_mem["stats"].setdefault("recent", []).append(1 if correct else 0)
  user_mem["stats"]["recent"] = user_mem["stats"]["recent"][-20:]
  # auto-level adjust
  if len(user_mem["stats"]["recent"]) >= 6:
      rate = sum(user_mem["stats"]["recent"]) / len(user_mem["stats"]["recent"])
      if rate >= 0.8 and user_mem["level"] < 5:
          user_mem["level"] += 1
      elif rate <= 0.5 and user_mem["level"] > 1:
          user_mem["level"] -= 1
  # record history
  user_mem.setdefault("conversation_history", []).append({"when": now_iso(),
      "prompt": item.get("native"), "your": text, "target": item.get("target"),
      "score": round(score,2)})
  \<close>
  The counters, the window and the level are the integers that \<^verbatim>\<open>default_user()\<close>
  creates and this handler maintains; the record below holds
  \<^verbatim>\<open>stats["correct"]\<close>, \<^verbatim>\<open>stats["wrong"]\<close>, \<^verbatim>\<open>stats["recent"]\<close> and \<^verbatim>\<open>level\<close>.

  \<^verbatim>\<open>sum\<close> of integers is exact. \<^verbatim>\<open>a / b\<close> of two integers is the quotient rounded to the
  nearest double; it raises ZeroDivisionError when \<^verbatim>\<open>b\<close> is 0, and OverflowError when the
  rounded quotient is beyond the largest double \<^verbatim>\<open>2**1024 - 2**971\<close>, that is when the
  absolute value of the quotient is at least \<^verbatim>\<open>2**1024 - 2**970\<close>. Otherwise the model
  keeps the exact quotient in place of the rounded one. Rounding is monotone, and the
  divisor here is the length of the window, between 6 and 20, so that a quotient below
  4/5 is at most 4/5 - 1/100 and a quotient above 1/2 is at least 1/2 + 1/40: the
  comparisons of the rounded quotient with the doubles \<^verbatim>\<open>0.8\<close> (the double nearest to
  4/5) and \<^verbatim>\<open>0.5\<close> are those of the exact quotient with 4/5 and 1/2.
\<close>

datatype error = ZeroDivisionError | OverflowError

definition true_div :: "int \<Rightarrow> int \<Rightarrow> error + rat" where
  "true_div a b =
     (if b = 0 then Inl ZeroDivisionError
      else if 2 ^ 1024 - 2 ^ 970 \<le> \<bar>of_int a / of_int b :: rat\<bar> then Inl OverflowError
      else Inr (of_int a / of_int b))"

record progress =
  correct :: int
  wrong :: int
  recent :: "int list"
  level :: int

definition is_correct :: "rat \<Rightarrow> bool" where
  "is_correct score = (65 / 100 \<le> score)"

text \<open>
  The lines from the counters to the level adjustment. The handler mutates the user in
  place, so the result is the state of the user when the lines are left, together with
  the exception that left them, if any: when the division raises, the counter and the
  window are already updated and the level is as it was.
\<close>

definition score_attempt :: "bool \<Rightarrow> progress \<Rightarrow> progress \<times> error option" where
  "score_attempt ok p =
     (let p1 = (if ok then p\<lparr>correct := correct p + 1\<rparr> else p\<lparr>wrong := wrong p + 1\<rparr>);
          p2 = p1\<lparr>recent := last_n 20 (recent p1 @ [if ok then 1 else 0])\<rparr>
      in if 6 \<le> length (recent p2) then
           (case true_div (sum_list (recent p2)) (int (length (recent p2))) of
              Inl e \<Rightarrow> (p2, Some e)
            | Inr rate \<Rightarrow>
                (if 8 / 10 \<le> rate \<and> level p2 < 5 then p2\<lparr>level := level p2 + 1\<rparr>
                 else if rate \<le> 5 / 10 \<and> 1 < level p2 then p2\<lparr>level := level p2 - 1\<rparr>
                 else p2,
                 None))
         else (p2, None))"

text \<open>
  The history entry that the handler appends; \<open>p\<close> and \<open>t\<close> are \<^verbatim>\<open>item.get("native")\<close>
  and \<^verbatim>\<open>item.get("target")\<close>, \<open>s\<close> the rounded score.
\<close>

definition practice_turn :: "json \<Rightarrow> string \<Rightarrow> json \<Rightarrow> json \<Rightarrow> clock \<Rightarrow> json \<times> clock" where
  "practice_turn p text t s clk =
     (JDict [(''when'', fst (now_iso clk)), (''prompt'', p), (''your'', JStr text),
             (''target'', t), (''score'', s)],
      snd (now_iso clk))"

section \<open>Merging an uploaded store\<close>

text \<open>
  \<^verbatim>\<open>
  rd = json.load(uploaded)
  # naive merge: add users from uploaded
  for k,v in rd.get("users", rd).items():
      if k not in global_data.get("users", {}):
          global_data.setdefault("users", {})[k] = v
      else:
          # merge vocab & history simple append
          existing = global_data["users"][k]
          existing.setdefault("conversation_history", []).extend(v.get("conversation_history",[]))
          for lang, vv in v.get("custom_vocab", {}).items():
              existing.setdefault("custom_vocab", {}).setdefault(lang, []).extend(vv)
  \<close>
  \<open>setdefault_extend d k x\<close> is \<^verbatim>\<open>d.setdefault(k, []).extend(x)\<close>: only a list has
  \<^verbatim>\<open>extend\<close>, and \<open>x\<close> must be iterable.
\<close>

fun list_items :: "json \<Rightarrow> json list option" where
  "list_items (JList xs) = Some xs"
| "list_items _ = None"

definition setdefault_extend :: "json \<Rightarrow> string \<Rightarrow> json \<Rightarrow> json option" where
  "setdefault_extend d k x = do {
     cur \<leftarrow> get_default d k (JList []);
     xs \<leftarrow> list_items cur;
     ys \<leftarrow> py_iter x;
     set_item d k (JList (xs @ ys))
   }"

fun merge_vocab :: "json \<Rightarrow> (string \<times> json) list \<Rightarrow> json option" where
  "merge_vocab existing [] = Some existing"
| "merge_vocab existing (lv # rest) = do {
     cv \<leftarrow> get_default existing ''custom_vocab'' (JDict []);
     cv' \<leftarrow> setdefault_extend cv (fst lv) (snd lv);
     existing' \<leftarrow> set_item existing ''custom_vocab'' cv';
     merge_vocab existing' rest
   }"

definition merge_user :: "json \<Rightarrow> json \<Rightarrow> json option" where
  "merge_user existing v = do {
     h \<leftarrow> get_default v ''conversation_history'' (JList []);
     existing1 \<leftarrow> setdefault_extend existing ''conversation_history'' h;
     cv \<leftarrow> get_default v ''custom_vocab'' (JDict []);
     items \<leftarrow> dict_items cv;
     merge_vocab existing1 items
   }"

text \<open>
  One round of the loop. When \<^verbatim>\<open>global_data.get("users", {})\<close> is not a dict, either the
  test \<^verbatim>\<open>k not in ...\<close> or the subscript that follows it raises, so the round fails.
\<close>

definition merge_step :: "json \<Rightarrow> string \<times> json \<Rightarrow> json option" where
  "merge_step global_data kv = do {
     users \<leftarrow> get_default global_data ''users'' (JDict []);
     us \<leftarrow> dict_items users;
     (case map_of us (fst kv) of
        None \<Rightarrow> set_item global_data ''users'' (JDict (AList.update (fst kv) (snd kv) us))
      | Some existing \<Rightarrow> do {
          existing' \<leftarrow> merge_user existing (snd kv);
          set_item global_data ''users'' (JDict (AList.update (fst kv) existing' us))
        })
   }"

fun merge_items :: "json \<Rightarrow> (string \<times> json) list \<Rightarrow> json option" where
  "merge_items global_data [] = Some global_data"
| "merge_items global_data (kv # rest) = do {
     g \<leftarrow> merge_step global_data kv;
     merge_items g rest
   }"

definition merge :: "json \<Rightarrow> json \<Rightarrow> json option" where
  "merge global_data rd = do {
     src \<leftarrow> get_default rd ''users'' rd;
     items \<leftarrow> dict_items src;
     merge_items global_data items
   }"

section \<open>Notions for the statements\<close>

text \<open>
  Keeping the first occurrence of every key, in iteration order, against a set of keys
  seen so far: what the two loops of \<^verbatim>\<open>deduplicate_user\<close> do with their \<^verbatim>\<open>seen\<close> sets.
\<close>

fun firsts :: "('a \<Rightarrow> 'k) \<Rightarrow> 'k set \<Rightarrow> 'a list \<Rightarrow> 'a list" where
  "firsts key seen [] = []"
| "firsts key seen (x # xs) =
     (if key x \<in> seen then firsts key seen xs else x # firsts key (insert (key x) seen) xs)"

subsection \<open>Example documents\<close>

text \<open>
  In the examples no vocabulary level is a string, so the parser behind \<^verbatim>\<open>int(str)\<close> is
  never consulted; they pass one that accepts nothing. The example clock gives the same
  reading at every call.
\<close>

definition int_str_none :: "string \<Rightarrow> int option" where
  "int_str_none s = None"

definition sample_clock :: clock where
  "sample_clock n = ''2024-05-01T10:00:00''"

definition user_of :: "json \<Rightarrow> json \<Rightarrow> json \<Rightarrow> json" where
  "user_of recent_window vocab history =
     JDict [(''name'', JStr ''ana''), (''lang'', JStr ''es''), (''level'', JInt 1),
            (''stats'', JDict [(''correct'', JInt 0), (''wrong'', JInt 0), (''recent'', recent_window)]),
            (''custom_vocab'', vocab), (''conversation_history'', history)]"

definition entry_a :: json where
  "entry_a = JDict [(''native'', JStr '' Hola''), (''target'', JStr ''hello''), (''topic'', JStr ''greet''),
                    (''level'', JInt 1), (''last_used'', JStr ''2024-01-01T09:00:00Z''), (''note'', JStr ''first'')]"

definition entry_b :: json where
  "entry_b = JDict [(''native'', JStr ''hola ''), (''correct_answer'', JStr ''Hello''), (''topic'', JStr ''greet''),
                    (''last_used'', JStr ''2024-02-01T09:00:00Z'')]"

definition vocab_user :: json where
  "vocab_user = user_of (JList []) (JDict [(''es'', JList [entry_a, entry_b])]) (JList [])"

subsection \<open>Stores of the shape the program writes\<close>

text \<open>
  The history entries that the program appends have the keys \<^verbatim>\<open>when\<close>, \<^verbatim>\<open>prompt\<close>,
  \<^verbatim>\<open>your\<close>, \<^verbatim>\<open>target\<close>, \<^verbatim>\<open>score\<close>; the vocabulary entries it appends have an integer
  \<^verbatim>\<open>level\<close>. \<open>plain_turn\<close> says that a history entry has no truthy \<^verbatim>\<open>ai\<close>, \<^verbatim>\<open>reply\<close> or
  \<^verbatim>\<open>lang\<close> value, \<open>int_level\<close> that the level of a vocabulary entry is missing, null or an
  integer, and \<open>app_written\<close> that this holds for every entry of every user of a store.
\<close>

definition falsy_at :: "json \<Rightarrow> string \<Rightarrow> bool" where
  "falsy_at d k = (case get d k of Some v \<Rightarrow> \<not> truthy v | None \<Rightarrow> True)"

definition plain_turn :: "json \<Rightarrow> bool" where
  "plain_turn turn = (falsy_at turn ''ai'' \<and> falsy_at turn ''reply'' \<and> falsy_at turn ''lang'')"

definition int_level :: "json \<Rightarrow> bool" where
  "int_level it = (case get it ''level'' of Some JNull \<Rightarrow> True | Some (JInt n) \<Rightarrow> True | _ \<Rightarrow> False)"

definition history_of :: "json \<Rightarrow> json list" where
  "history_of mem =
     (case Option.bind (get_default mem ''conversation_history'' (JList [])) py_iter of
        Some turns \<Rightarrow> turns | None \<Rightarrow> [])"

definition vocab_of :: "json \<Rightarrow> json list" where
  "vocab_of mem =
     (case Option.bind (get_default mem ''custom_vocab'' (JDict [])) dict_items of
        Some items \<Rightarrow> concat (map (\<lambda>lv. case py_iter (snd lv) of Some its \<Rightarrow> its | None \<Rightarrow> []) items)
      | None \<Rightarrow> [])"

definition users_of :: "json \<Rightarrow> json list" where
  "users_of store =
     (case Option.bind (get_default store ''users'' (JDict [])) dict_items of
        Some us \<Rightarrow> map snd us | None \<Rightarrow> [])"

definition app_user :: "json \<Rightarrow> bool" where
  "app_user mem = (list_all plain_turn (history_of mem) \<and> list_all int_level (vocab_of mem))"

definition app_written :: "json \<Rightarrow> bool" where
  "app_written store = list_all app_user (users_of store)"

subsection \<open>More example documents\<close>

definition store_of :: "json \<Rightarrow> json" where
  "store_of u = JDict [(''users'', JDict [(''ana'', u)])]"

definition store_long_window :: json where
  "store_long_window = store_of (user_of (JList (replicate 21 (JInt 1))) (JDict []) (JList []))"

definition recent_of :: "json \<Rightarrow> string \<Rightarrow> json list option" where
  "recent_of store uname = do {
     users \<leftarrow> subscript store ''users'';
     u \<leftarrow> subscript users uname;
     stats \<leftarrow> subscript u ''stats'';
     r \<leftarrow> subscript stats ''recent'';
     list_items r
   }"

definition legacy_turn :: "string \<Rightarrow> string \<Rightarrow> string \<Rightarrow> json" where
  "legacy_turn w u a = JDict [(''when'', JStr w), (''user'', JStr u), (''ai'', JStr a)]"

definition store_legacy :: json where
  "store_legacy = store_of (user_of (JList []) (JDict [])
     (JList [legacy_turn ''2024-01-01T09:00:00Z'' ''hola'' ''muy bien'',
             legacy_turn ''2024-01-02T09:00:00Z'' ''hola'' ''otra vez'']))"

definition store_legacy_once :: json where
  "store_legacy_once = store_of (user_of (JList []) (JDict [])
     (JList [history_record (JStr ''2024-01-01T09:00:00Z'') (JStr []) ''hola'' (JStr []) JNull,
             history_record (JStr ''2024-01-02T09:00:00Z'') (JStr []) ''hola'' (JStr []) JNull]))"

definition store_legacy_twice :: json where
  "store_legacy_twice = store_of (user_of (JList []) (JDict [])
     (JList [history_record (JStr ''2024-01-01T09:00:00Z'') (JStr []) ''hola'' (JStr []) JNull]))"

definition app_turn :: "string \<Rightarrow> string \<Rightarrow> string \<Rightarrow> json" where
  "app_turn w u t = JDict [(''when'', JStr w), (''prompt'', JStr ''hello''), (''your'', JStr u),
                           (''target'', JStr t), (''score'', JFloat (3 / 4))]"

definition store_app :: json where
  "store_app = store_of (user_of (JList [JInt 1, JInt 0]) (JDict [(''es'', JList [entry_a, entry_b])])
     (JList [app_turn ''2024-03-01T09:00:00Z'' ''Hola'' ''hola'',
             app_turn ''2024-03-02T09:00:00Z'' ''hola'' ''buenos dias'']))"

definition store_app_deduped :: json where
  "store_app_deduped = store_of (user_of (JList [JInt 1, JInt 0])
     (JDict [(''es'', JList [vocab_record (''Hola'', ''hello'', ''greet'', 1) (JStr ''2024-01-01T09:00:00Z'')])])
     (JList [app_turn ''2024-03-01T09:00:00Z'' ''Hola'' ''hola'']))"

subsection \<open>The lists of a user record\<close>

text \<open>
  The list under \<^verbatim>\<open>conversation_history\<close> and the list of one language under
  \<^verbatim>\<open>custom_vocab\<close>, each empty when the key is missing, as \<^verbatim>\<open>setdefault\<close> reads them.
\<close>

definition history_list :: "json \<Rightarrow> json list option" where
  "history_list u = Option.bind (get_default u ''conversation_history'' (JList [])) list_items"

definition vocab_list :: "json \<Rightarrow> string \<Rightarrow> json list option" where
  "vocab_list u lang = do {
     cv \<leftarrow> get_default u ''custom_vocab'' (JDict []);
     l \<leftarrow> get_default cv lang (JList []);
     list_items l
   }"

subsection \<open>The entries that are rebuilt, and the clock readings they take\<close>

text \<open>
  The first loop of \<^verbatim>\<open>deduplicate_user\<close> rebuilds, of every vocabulary list, the first
  entry of each key, in the order of the list: these are \<open>kept I its\<close>. Rebuilding an
  entry calls \<^verbatim>\<open>now_iso()\<close> when the entry has no truthy \<^verbatim>\<open>last_used\<close>; \<open>unstamped\<close> counts
  such entries. The languages are visited in the order of the dict, so the number of
  clock readings taken before the entry at position \<open>j\<close> of the rebuilt list of the
  language at position \<open>a\<close> is rebuilt is \<open>readings_before I cv a j\<close>: one for every
  unstamped entry kept in the lists of the languages before \<open>a\<close>, and one for every
  unstamped entry kept before position \<open>j\<close> in the list of \<open>a\<close>.
\<close>

definition entry_key :: "(string \<Rightarrow> int option) \<Rightarrow> json \<Rightarrow> vkey option" where
  "entry_key I it = map_option vocab_key (vocab_fields I it)"

definition kept :: "(string \<Rightarrow> int option) \<Rightarrow> json list \<Rightarrow> json list" where
  "kept I its = firsts (entry_key I) {} its"

definition unstamped :: "json list \<Rightarrow> nat" where
  "unstamped its = length (filter (\<lambda>it. falsy_at it ''last_used'') its)"

definition entries_of :: "json \<Rightarrow> json list" where
  "entries_of v = (case py_iter v of Some its \<Rightarrow> its | None \<Rightarrow> [])"

definition readings_before ::
  "(string \<Rightarrow> int option) \<Rightarrow> (string \<times> json) list \<Rightarrow> nat \<Rightarrow> nat \<Rightarrow> nat" where
  "readings_before I cv a j =
     sum_list (map (\<lambda>lv. unstamped (kept I (entries_of (snd lv)))) (take a cv))
     + unstamped (take j (kept I (entries_of (snd (cv ! a)))))"

subsection \<open>Example documents with a running clock\<close>

text \<open>
  A clock whose readings differ, entries without \<^verbatim>\<open>last_used\<close>, and a user with two
  languages. \<open>entry_c\<close> and \<open>entry_d\<close> have the same key and differ from \<open>entry_a\<close> in
  every component of it; \<open>entry_e\<close> has neither \<^verbatim>\<open>target\<close> nor \<^verbatim>\<open>topic\<close> nor \<^verbatim>\<open>level\<close>.
\<close>

definition ticking_clock :: clock where
  "ticking_clock n = (if n = 0 then ''2024-05-01T10:00:00''
                      else if n = 1 then ''2024-05-01T10:00:01''
                      else if n = 2 then ''2024-05-01T10:00:02''
                      else ''2024-05-01T10:00:03'')"

definition entry_c :: json where
  "entry_c = JDict [(''native'', JStr ''Adios''), (''target'', JStr ''bye''), (''topic'', JStr ''leave''),
                    (''level'', JInt 2)]"

definition entry_d :: json where
  "entry_d = JDict [(''native'', JStr '' adios''), (''target'', JStr ''Bye ''), (''topic'', JStr ''leave''),
                    (''level'', JInt 2)]"

definition entry_e :: json where
  "entry_e = JDict [(''native'', JStr ''merci''), (''correct_answer'', JStr '' thanks''),
                    (''note'', JStr ''from the upload'')]"

definition two_lang_vocab :: "(string \<times> json) list" where
  "two_lang_vocab = [(''es'', JList [entry_c, entry_a, entry_b, entry_d]), (''fr'', JList [entry_e])]"

definition two_lang_user :: json where
  "two_lang_user = user_of (JList []) (JDict two_lang_vocab) (JList [])"

definition two_lang_vocab_deduped :: "(string \<times> json) list" where
  "two_lang_vocab_deduped =
     [(''es'', JList [vocab_record (''Adios'', ''bye'', ''leave'', 2) (JStr ''2024-05-01T10:00:00Z''),
                      vocab_record (''Hola'', ''hello'', ''greet'', 1) (JStr ''2024-01-01T09:00:00Z'')]),
      (''fr'', JList [vocab_record (''merci'', ''thanks'', [], 1) (JStr ''2024-05-01T10:00:01Z'')])]"

definition two_lang_user_deduped :: json where
  "two_lang_user_deduped = user_of (JList []) (JDict two_lang_vocab_deduped) (JList [])"

subsection \<open>Example documents for the merge\<close>

definition store_small :: json where
  "store_small = store_of (user_of (JList [JInt 1]) (JDict [(''es'', JList [entry_a])])
     (JList [app_turn ''2024-03-01T09:00:00Z'' ''Hola'' ''hola'']))"

definition upload_ana :: json where
  "upload_ana = JDict [(''level'', JInt 5),
     (''conversation_history'', JList [app_turn ''2024-03-02T09:00:00Z'' ''hola'' ''hola'']),
     (''custom_vocab'', JDict [(''es'', JList [entry_b]), (''fr'', JList [entry_a])])]"

definition upload_users :: "(string \<times> json) list" where
  "upload_users = [(''ana'', upload_ana), (''bea'', user_of (JList []) (JDict []) (JList []))]"

definition upload :: json where
  "upload = JDict [(''users'', JDict upload_users)]"

definition store_merged :: json where
  "store_merged = JDict [(''users'', JDict
     [(''ana'', user_of (JList [JInt 1]) (JDict [(''es'', JList [entry_a, entry_b]), (''fr'', JList [entry_a])])
        (JList [app_turn ''2024-03-01T09:00:00Z'' ''Hola'' ''hola'',
                app_turn ''2024-03-02T09:00:00Z'' ''hola'' ''hola''])),
      (''bea'', user_of (JList []) (JDict []) (JList []))])]"

section \<open>Properties of \<^verbatim>\<open>normalize_str\<close>\<close>

lemmas string_eval =
  normalize_str_def strip_def lower_def lower_char_def is_upper_def is_space_def
  repl_get_def repl_def

text \<open>
  C7. The claim is that \<^verbatim>\<open>normalize(s)\<close> never contains a character of the folding
  table, also when the input has an upper-case accented letter. The function folds
  first and lower-cases afterwards: an upper-case A with acute (U+00C1) is not a key
  of the table, passes the folding unchanged and is then lower-cased to U+00E1, which is
  a key of the table. So the result of \<^verbatim>\<open>normalize_str\<close> on that one-letter string is the
  accented lower-case letter itself, and normalising once more changes it again.
\<close>

theorem normalize_upper_accent_survives:
  "normalize_str [CHR 0xC1] = [CHR 0xE1]
   \<and> CHR 0xE1 \<in> fst ` set repl
   \<and> normalize_str (normalize_str [CHR 0xC1]) = ''a''
   \<and> normalize_str [CHR 0xE1] = ''a''"
  by (simp add: string_eval)

section \<open>Similarity and the threshold\<close>

text \<open>
  C6. \<^verbatim>\<open>fuzzy_ratio("hola","hola")\<close> is 1; \<^verbatim>\<open>fuzzy_ratio("hola","bonjour")\<close> is 2/11 (one
  matching block, the letter o, over 11 characters), which is below 0.65, so the
  attempt is incorrect; and for the answer that differs from the target only in its
  accents (\<^verbatim>\<open>c\<close> U+00F3 \<^verbatim>\<open>mo est\<close> U+00E1 \<^verbatim>\<open>s\<close> against \<^verbatim>\<open>como estas\<close>) the ratio is 1, which
  is at least 0.65, so the attempt is correct. Both quotients are far from 0.65, so the
  floating-point comparison of the program gives the same answers.
\<close>

theorem similarity_examples:
  "fuzzy_ratio ''hola'' ''hola'' = Some 1
   \<and> fuzzy_ratio ''hola'' ''bonjour'' = Some (2 / 11)
   \<and> (2 / 11 :: rat) < 65 / 100 \<and> \<not> is_correct (2 / 11)
   \<and> fuzzy_ratio (''c'' @ [CHR 0xF3] @ ''mo est'' @ [CHR 0xE1] @ ''s'') ''como estas'' = Some 1
   \<and> (65 / 100 :: rat) \<le> 1 \<and> is_correct 1"
proof -
  have a: "fuzzy_ratio ''hola'' ''hola'' = Some 1"
    by code_simp
  have b: "fuzzy_ratio ''hola'' ''bonjour'' = Some (2 / 11)"
    by code_simp
  have c: "fuzzy_ratio (''c'' @ [CHR 0xF3] @ ''mo est'' @ [CHR 0xE1] @ ''s'') ''como estas'' = Some 1"
    by code_simp
  show ?thesis
    using a b c by (simp add: is_correct_def)
qed

section \<open>The level after an attempt\<close>

lemma length_last_n: "length (last_n n xs) \<le> n"
  by (simp add: last_n_def)

lemma set_last_n: "set (last_n n xs) \<subseteq> set xs"
  by (simp add: last_n_def set_drop_subset)

lemma sum_list_bits:
  "\<forall>x\<in>set xs. x = 0 \<or> x = (1::int) \<Longrightarrow> 0 \<le> sum_list xs \<and> sum_list xs \<le> int (length xs)"
  by (induction xs) auto

lemma true_div_Inr:
  "b \<noteq> 0 \<Longrightarrow> \<bar>of_int a / of_int b :: rat\<bar> < 2 ^ 1024 - 2 ^ 970
     \<Longrightarrow> true_div a b = Inr (of_int a / of_int b)"
  by (simp add: true_div_def)

lemma true_div_Inl:
  "b \<noteq> 0 \<Longrightarrow> 2 ^ 1024 - 2 ^ 970 \<le> \<bar>of_int a / of_int b :: rat\<bar>
     \<Longrightarrow> true_div a b = Inl OverflowError"
  by (simp add: true_div_def)

lemma window_rate_small:
  assumes "\<forall>x\<in>set r. x = 0 \<or> x = (1::int)"
  shows "\<bar>(of_int (sum_list r) :: rat) / of_nat (length r)\<bar> < 2 ^ 1024 - 2 ^ 970"
proof -
  from sum_list_bits[OF assms] have s: "0 \<le> sum_list r" "sum_list r \<le> int (length r)"
    by simp_all
  have "(of_int (sum_list r) :: rat) / of_nat (length r) \<le> 1"
  proof (cases "length r = 0")
    case True
    then show ?thesis by simp
  next
    case False
    have "(of_int (sum_list r) :: rat) \<le> of_int (int (length r))"
      using s(2) by (simp only: of_int_le_iff)
    then show ?thesis using False by (simp add: divide_le_eq)
  qed
  moreover have "0 \<le> (of_int (sum_list r) :: rat) / of_nat (length r)"
    using s(1) by simp
  moreover have "(1::rat) < 2 ^ 1024 - 2 ^ 970"
    by simp
  ultimately show ?thesis by simp
qed

text \<open>
  C4. An attempt adds one to the counter of correct or of wrong answers, appends 1 or 0
  to the window and keeps its last 20 entries. Let \<open>r\<close> be the new window and \<open>rate\<close> the
  quotient of its sum and its length. When \<open>r\<close> has at least 6 entries and the quotient
  is too large for a float, the division raises OverflowError and the level is left as it
  was. In every other case nothing is raised, and the level goes up by one when \<open>r\<close> has
  at least 6 entries, the rate is at least 0.8 and the level is below 5; otherwise it
  goes down by one when \<open>r\<close> has at least 6 entries, the rate is at most 0.5 and the level
  is above 1; otherwise it stays. A window whose entries are all 0 or 1, which is what
  the handler appends, is always in the second case. In both cases the level moves by at
  most one, and a level in 1..5 stays in 1..5. Six ones and a correct answer take level
  3 to 4; six zeros and a wrong answer take level 3 to 2.
\<close>

theorem score_attempt_level:
  "recent (fst (score_attempt ok p)) = last_n 20 (recent p @ [if ok then 1 else 0])
   \<and> length (recent (fst (score_attempt ok p))) \<le> 20
   \<and> correct (fst (score_attempt ok p)) = correct p + (if ok then 1 else 0)
   \<and> wrong (fst (score_attempt ok p)) = wrong p + (if ok then 0 else 1)
   \<and> (let r = recent (fst (score_attempt ok p));
          rate = (of_int (sum_list r) :: rat) / of_nat (length r)
      in if 6 \<le> length r \<and> 2 ^ 1024 - 2 ^ 970 \<le> \<bar>rate\<bar>
         then snd (score_attempt ok p) = Some OverflowError
              \<and> level (fst (score_attempt ok p)) = level p
         else snd (score_attempt ok p) = None
              \<and> level (fst (score_attempt ok p)) =
                  (if 6 \<le> length r \<and> 8 / 10 \<le> rate \<and> level p < 5 then level p + 1
                   else if 6 \<le> length r \<and> rate \<le> 5 / 10 \<and> 1 < level p then level p - 1
                   else level p))
   \<and> ((\<forall>x\<in>set (recent p). x = 0 \<or> x = 1) \<longrightarrow>
         snd (score_attempt ok p) = None
         \<and> level (fst (score_attempt ok p)) =
             (let r = recent (fst (score_attempt ok p));
                  rate = (of_int (sum_list r) :: rat) / of_nat (length r)
              in if 6 \<le> length r \<and> 8 / 10 \<le> rate \<and> level p < 5 then level p + 1
                 else if 6 \<le> length r \<and> rate \<le> 5 / 10 \<and> 1 < level p then level p - 1
                 else level p))
   \<and> \<bar>level (fst (score_attempt ok p)) - level p\<bar> \<le> 1
   \<and> (1 \<le> level p \<and> level p \<le> 5
        \<longrightarrow> 1 \<le> level (fst (score_attempt ok p)) \<and> level (fst (score_attempt ok p)) \<le> 5)
   \<and> snd (score_attempt True (p\<lparr>recent := [1, 1, 1, 1, 1, 1], level := 3\<rparr>)) = None
   \<and> level (fst (score_attempt True (p\<lparr>recent := [1, 1, 1, 1, 1, 1], level := 3\<rparr>))) = 4
   \<and> snd (score_attempt False (p\<lparr>recent := [0, 0, 0, 0, 0, 0], level := 3\<rparr>)) = None
   \<and> level (fst (score_attempt False (p\<lparr>recent := [0, 0, 0, 0, 0, 0], level := 3\<rparr>))) = 2"
proof -
  define r where "r = last_n 20 (recent p @ [if ok then 1 else 0])"
  define rate where "rate = (of_int (sum_list r) :: rat) / of_nat (length r)"
  define rule where "rule =
    (if 6 \<le> length r \<and> 8 / 10 \<le> rate \<and> level p < 5 then level p + 1
     else if 6 \<le> length r \<and> rate \<le> 5 / 10 \<and> 1 < level p then level p - 1
     else level p)"
  have rec: "recent (fst (score_attempt ok p)) = r"
    by (cases ok) (simp_all add: score_attempt_def Let_def r_def split: sum.splits)
  have len: "length r \<le> 20"
    unfolding r_def by (rule length_last_n)
  have cnt: "correct (fst (score_attempt ok p)) = correct p + (if ok then 1 else 0)"
    "wrong (fst (score_attempt ok p)) = wrong p + (if ok then 0 else 1)"
    by (cases ok; simp add: score_attempt_def Let_def split: sum.splits)+
  have short: "\<not> 6 \<le> length r \<Longrightarrow>
      snd (score_attempt ok p) = None \<and> level (fst (score_attempt ok p)) = rule"
    by (cases ok) (simp_all add: score_attempt_def Let_def r_def rule_def)
  have big: "6 \<le> length r \<Longrightarrow> 2 ^ 1024 - 2 ^ 970 \<le> \<bar>rate\<bar> \<Longrightarrow>
      snd (score_attempt ok p) = Some OverflowError \<and> level (fst (score_attempt ok p)) = level p"
  proof -
    assume l: "6 \<le> length r" and o: "2 ^ 1024 - 2 ^ 970 \<le> \<bar>rate\<bar>"
    have "true_div (sum_list r) (int (length r)) = Inl OverflowError"
    proof (rule true_div_Inl)
      show "int (length r) \<noteq> 0" using l by auto
      show "2 ^ 1024 - 2 ^ 970 \<le> \<bar>rat_of_int (sum_list r) / rat_of_int (int (length r))\<bar>"
        using o by (simp only: rate_def of_int_of_nat_eq)
    qed
    then show ?thesis
      using l by (cases ok) (simp_all add: score_attempt_def Let_def r_def)
  qed
  have small: "6 \<le> length r \<Longrightarrow> \<bar>rate\<bar> < 2 ^ 1024 - 2 ^ 970 \<Longrightarrow>
      snd (score_attempt ok p) = None \<and> level (fst (score_attempt ok p)) = rule"
  proof -
    assume l: "6 \<le> length r" and o: "\<bar>rate\<bar> < 2 ^ 1024 - 2 ^ 970"
    have "true_div (sum_list r) (int (length r))
            = Inr (rat_of_int (sum_list r) / rat_of_int (int (length r)))"
    proof (rule true_div_Inr)
      show "int (length r) \<noteq> 0" using l by auto
      show "\<bar>rat_of_int (sum_list r) / rat_of_int (int (length r))\<bar> < 2 ^ 1024 - 2 ^ 970"
        using o by (simp only: rate_def of_int_of_nat_eq)
    qed
    then have "true_div (sum_list r) (int (length r)) = Inr rate"
      by (simp only: rate_def of_int_of_nat_eq)
    then show ?thesis
      using l by (cases ok) (simp_all add: score_attempt_def Let_def r_def rule_def)
  qed
  have main: "if 6 \<le> length r \<and> 2 ^ 1024 - 2 ^ 970 \<le> \<bar>rate\<bar>
         then snd (score_attempt ok p) = Some OverflowError
              \<and> level (fst (score_attempt ok p)) = level p
         else snd (score_attempt ok p) = None \<and> level (fst (score_attempt ok p)) = rule"
    using short big small by (cases "6 \<le> length r"; cases "2 ^ 1024 - 2 ^ 970 \<le> \<bar>rate\<bar>") auto
  have bits: "(\<forall>x\<in>set (recent p). x = 0 \<or> x = 1) \<longrightarrow>
         snd (score_attempt ok p) = None \<and> level (fst (score_attempt ok p)) = rule"
  proof
    assume a: "\<forall>x\<in>set (recent p). x = 0 \<or> x = 1"
    have "set r \<subseteq> set (recent p @ [if ok then 1 else 0])"
      unfolding r_def by (rule set_last_n)
    with a have "\<forall>x\<in>set r. x = 0 \<or> x = 1" by (cases ok) auto
    from window_rate_small[OF this] have "\<bar>rate\<bar> < 2 ^ 1024 - 2 ^ 970"
      by (simp add: rate_def)
    with short small show "snd (score_attempt ok p) = None \<and> level (fst (score_attempt ok p)) = rule"
      by blast
  qed
  have lv: "level (fst (score_attempt ok p)) = level p \<or> level (fst (score_attempt ok p)) = rule"
    using main by (auto split: if_splits)
  have d: "\<bar>level (fst (score_attempt ok p)) - level p\<bar> \<le> 1"
    using lv by (auto simp: rule_def split: if_splits)
  have b: "1 \<le> level p \<and> level p \<le> 5
        \<longrightarrow> 1 \<le> level (fst (score_attempt ok p)) \<and> level (fst (score_attempt ok p)) \<le> 5"
    using lv by (auto simp: rule_def split: if_splits)
  have e1: "snd (score_attempt True (p\<lparr>recent := [1, 1, 1, 1, 1, 1], level := 3\<rparr>)) = None"
    "level (fst (score_attempt True (p\<lparr>recent := [1, 1, 1, 1, 1, 1], level := 3\<rparr>))) = 4"
    by (simp_all add: score_attempt_def true_div_def Let_def last_n_def)
  have e2: "snd (score_attempt False (p\<lparr>recent := [0, 0, 0, 0, 0, 0], level := 3\<rparr>)) = None"
    "level (fst (score_attempt False (p\<lparr>recent := [0, 0, 0, 0, 0, 0], level := 3\<rparr>))) = 2"
    by (simp_all add: score_attempt_def true_div_def Let_def last_n_def)
  show ?thesis
    unfolding rec Let_def
    using rec len cnt main[unfolded rule_def rate_def] bits[unfolded rule_def rate_def] d b e1 e2
    by (intro conjI) (simp_all only: r_def [symmetric])
qed

theorem score_attempt_level_witness:
  "set [1, 1, 1, 1, 1, 1::int] \<subseteq> {0, 1}
   \<and> (1::int) \<le> 3 \<and> (3::int) \<le> 5
   \<and> score_attempt True \<lparr>correct = 6, wrong = 0, recent = [1, 1, 1, 1, 1, 1], level = 3\<rparr>
       = (\<lparr>correct = 7, wrong = 0, recent = [1, 1, 1, 1, 1, 1, 1], level = 4\<rparr>, None)
   \<and> snd (score_attempt True \<lparr>correct = 6, wrong = 0, recent = [1, 1, 1, 1, 1, 1], level = 3\<rparr>) = None
   \<and> 1 \<le> level (fst (score_attempt True \<lparr>correct = 6, wrong = 0, recent = [1, 1, 1, 1, 1, 1], level = 3\<rparr>))
   \<and> level (fst (score_attempt True \<lparr>correct = 6, wrong = 0, recent = [1, 1, 1, 1, 1, 1], level = 3\<rparr>)) \<le> 5"
  using score_attempt_level [of True "\<lparr>correct = 6, wrong = 0, recent = [1, 1, 1, 1, 1, 1], level = 3\<rparr>"]
  by (simp add: score_attempt_def true_div_def Let_def last_n_def)

section \<open>Loading the store: when it fails, and what it returns\<close>

text \<open>
  C9 says that \<^verbatim>\<open>load_global\<close> never raises and that a parsed document without a
  \<^verbatim>\<open>users\<close> key comes back wrapped. Two states of the file contradict it. When the
  existence test itself fails (\<open>Inaccessible\<close>) the exception leaves \<^verbatim>\<open>load_global\<close>,
  because \<^verbatim>\<open>Path(GLOBAL_FILE).exists()\<close> stands before the \<^verbatim>\<open>try\<close>. And when the file
  holds the JSON document \<^verbatim>\<open>5\<close>, which has no \<^verbatim>\<open>users\<close> key, the test
  \<^verbatim>\<open>"users" not in data\<close> raises TypeError inside the \<^verbatim>\<open>try\<close>, so the result is the empty
  store and not \<^verbatim>\<open>{"users": 5}\<close>.
\<close>

theorem load_global_raises_or_drops:
  "load_global Inaccessible = None
   \<and> load_global (Parsed (JInt 5)) = Some (JDict [(''users'', JDict [])])
   \<and> load_global (Parsed (JInt 5)) \<noteq> Some (JDict [(''users'', JInt 5)])"
  by (simp add: load_global_def load_try_def file_exists_def empty_store_def)

text \<open>
  C9, amended. Whenever the existence test returns, \<^verbatim>\<open>load_global\<close> returns a store:
  the empty store \<^verbatim>\<open>{"users": {}}\<close> when there is no file, when reading or parsing the
  file raises, and when the parsed document is \<^verbatim>\<open>null\<close>, a boolean or a number; the
  parsed document wrapped as \<^verbatim>\<open>{"users": parsed}\<close> when it is an object without the key
  \<^verbatim>\<open>users\<close>, an array without the element \<^verbatim>\<open>"users"\<close>, or a string in which \<^verbatim>\<open>users\<close>
  does not occur; and the parsed document as it is when it is an object with the key
  \<^verbatim>\<open>users\<close>, an array with the element \<^verbatim>\<open>"users"\<close>, or a string in which \<^verbatim>\<open>users\<close> occurs.
  It raises only when the existence test does.
\<close>

theorem load_global_safe:
  "(load_global d = None \<longleftrightarrow> d = Inaccessible)
   \<and> (d \<noteq> Inaccessible \<longrightarrow> (\<exists>store. load_global d = Some store))
   \<and> load_global NoFile = Some (JDict [(''users'', JDict [])])
   \<and> load_global Unparsable = Some (JDict [(''users'', JDict [])])
   \<and> load_global (Parsed JNull) = Some (JDict [(''users'', JDict [])])
   \<and> load_global (Parsed (JBool b)) = Some (JDict [(''users'', JDict [])])
   \<and> load_global (Parsed (JInt n)) = Some (JDict [(''users'', JDict [])])
   \<and> load_global (Parsed (JFloat r)) = Some (JDict [(''users'', JDict [])])
   \<and> (''users'' \<notin> fst ` set doc
        \<longrightarrow> load_global (Parsed (JDict doc)) = Some (JDict [(''users'', JDict doc)]))
   \<and> (JStr ''users'' \<notin> set xs
        \<longrightarrow> load_global (Parsed (JList xs)) = Some (JDict [(''users'', JList xs)]))
   \<and> (\<not> is_substring ''users'' s
        \<longrightarrow> load_global (Parsed (JStr s)) = Some (JDict [(''users'', JStr s)]))
   \<and> (''users'' \<in> fst ` set doc \<longrightarrow> load_global (Parsed (JDict doc)) = Some (JDict doc))
   \<and> (JStr ''users'' \<in> set xs \<longrightarrow> load_global (Parsed (JList xs)) = Some (JList xs))
   \<and> (is_substring ''users'' s \<longrightarrow> load_global (Parsed (JStr s)) = Some (JStr s))"
proof -
  have a: "load_global d = None \<longleftrightarrow> d = Inaccessible"
    by (cases d) (simp_all add: load_global_def load_try_def file_exists_def split: option.splits)
  then have b: "d \<noteq> Inaccessible \<longrightarrow> (\<exists>store. load_global d = Some store)"
    by auto
  show ?thesis
    using a b by (simp add: load_global_def load_try_def file_exists_def empty_store_def)
qed

theorem load_global_safe_witness:
  "Parsed (JDict [(''ana'', JDict [(''lang'', JStr ''es'')])]) \<noteq> Inaccessible
   \<and> ''users'' \<notin> fst ` set [(''ana'', JDict [(''lang'', JStr ''es'')])]
   \<and> load_global (Parsed (JDict [(''ana'', JDict [(''lang'', JStr ''es'')])]))
       = Some (JDict [(''users'', JDict [(''ana'', JDict [(''lang'', JStr ''es'')])])])
   \<and> JStr ''users'' \<notin> set [JStr ''ana'', JInt 1]
   \<and> load_global (Parsed (JList [JStr ''ana'', JInt 1]))
       = Some (JDict [(''users'', JList [JStr ''ana'', JInt 1])])
   \<and> \<not> is_substring ''users'' ''ana''
   \<and> load_global (Parsed (JStr ''ana'')) = Some (JDict [(''users'', JStr ''ana'')])
   \<and> ''users'' \<in> fst ` set [(''users'', JDict [])]
   \<and> load_global (Parsed (JDict [(''users'', JDict [])])) = Some (JDict [(''users'', JDict [])])
   \<and> JStr ''users'' \<in> set [JStr ''users'']
   \<and> load_global (Parsed (JList [JStr ''users''])) = Some (JList [JStr ''users''])
   \<and> is_substring ''users'' ''all users''
   \<and> load_global (Parsed (JStr ''all users'')) = Some (JStr ''all users'')"
proof -
  have s1: "\<not> is_substring ''users'' ''ana''"
    by (simp add: is_substring_def upt_rec)
  have s2: "is_substring ''users'' ''all users''"
    by (simp add: is_substring_def upt_rec)
  have d: "Parsed (JDict [(''ana'', JDict [(''lang'', JStr ''es'')])]) \<noteq> Inaccessible"
    by simp
  show ?thesis
    using load_global_safe [of "Parsed (JDict [(''ana'', JDict [(''lang'', JStr ''es'')])])" False 0 0
        "[(''ana'', JDict [(''lang'', JStr ''es'')])]" "[JStr ''ana'', JInt 1]" "''ana''"]
      load_global_safe [of NoFile False 0 0 "[(''users'', JDict [])]" "[JStr ''users'']" "''all users''"]
      s1 s2 d
    by simp
qed

section \<open>First occurrences\<close>

lemma firsts_keys: "set (map key (firsts key seen xs)) = key ` set xs - seen"
  by (induction xs arbitrary: seen) auto

lemma firsts_distinct: "distinct (map key (firsts key seen xs))"
  by (induction xs arbitrary: seen) (auto simp: firsts_keys simp del: set_map)

lemma firsts_subset: "set (firsts key seen xs) \<subseteq> set xs"
  by (induction xs arbitrary: seen) auto

lemma firsts_first:
  "x \<in> set (firsts key seen xs) \<Longrightarrow>
     \<exists>i. i < length xs \<and> xs ! i = x \<and> key x \<notin> seen \<and> (\<forall>j<i. key (xs ! j) \<noteq> key x)"
proof (induction xs arbitrary: seen)
  case Nil
  then show ?case by simp
next
  case (Cons y ys)
  show ?case
  proof (cases "key y \<in> seen")
    case True
    with Cons.prems have "x \<in> set (firsts key seen ys)" by simp
    from Cons.IH[OF this] obtain i where
      i: "i < length ys" "ys ! i = x" "key x \<notin> seen" "\<forall>j<i. key (ys ! j) \<noteq> key x" by blast
    have "\<forall>j<Suc i. key ((y # ys) ! j) \<noteq> key x"
      using i True by (auto simp: less_Suc_eq_0_disj)
    with i show ?thesis by (intro exI[of _ "Suc i"]) auto
  next
    case False
    show ?thesis
    proof (cases "x = y")
      case True
      with False show ?thesis by (intro exI[of _ 0]) auto
    next
      case neq: False
      with False Cons.prems have "x \<in> set (firsts key (insert (key y) seen) ys)" by simp
      from Cons.IH[OF this] obtain i where
        i: "i < length ys" "ys ! i = x" "key x \<notin> insert (key y) seen" "\<forall>j<i. key (ys ! j) \<noteq> key x"
        by blast
      have "\<forall>j<Suc i. key ((y # ys) ! j) \<noteq> key x"
        using i by (auto simp: less_Suc_eq_0_disj)
      with i show ?thesis by (intro exI[of _ "Suc i"]) auto
    qed
  qed
qed

lemma vocab_loop_firsts:
  "vocab_loop I its seen unique clk = Some (out, clk') \<Longrightarrow>
   \<exists>fs new. map (vocab_fields I) its = map Some fs \<and> out = unique @ new \<and>
     list_all2 (\<lambda>r p. \<exists>lu0 c. get (fst p) ''last_used'' = Some lu0
                       \<and> r = vocab_record (snd p) (fst (or_now lu0 c)))
       new (firsts (\<lambda>p. vocab_key (snd p)) seen (zip its fs))"
proof (induction its arbitrary: seen unique clk)
  case Nil
  then show ?case by simp
next
  case (Cons it its)
  from Cons.prems obtain f where f: "vocab_fields I it = Some f"
    by (auto split: option.splits)
  show ?case
  proof (cases "vocab_key f \<in> seen")
    case True
    with Cons.prems f have "vocab_loop I its seen unique clk = Some (out, clk')" by simp
    from Cons.IH[OF this] obtain fs new where
      "map (vocab_fields I) its = map Some fs" "out = unique @ new"
      "list_all2 (\<lambda>r p. \<exists>lu0 c. get (fst p) ''last_used'' = Some lu0
                       \<and> r = vocab_record (snd p) (fst (or_now lu0 c)))
         new (firsts (\<lambda>p. vocab_key (snd p)) seen (zip its fs))" by blast
    with f True show ?thesis
      by (intro exI[of _ "f # fs"] exI[of _ new]) simp
  next
    case False
    with Cons.prems f obtain lu0 where lu0: "get it ''last_used'' = Some lu0"
      and run: "vocab_loop I its (insert (vocab_key f) seen)
                 (unique @ [vocab_record f (fst (or_now lu0 clk))]) (snd (or_now lu0 clk)) = Some (out, clk')"
      by (auto split: option.splits)
    from Cons.IH[OF run] obtain fs new where
      a: "map (vocab_fields I) its = map Some fs"
      and b: "out = (unique @ [vocab_record f (fst (or_now lu0 clk))]) @ new"
      and c: "list_all2 (\<lambda>r p. \<exists>lu0 c. get (fst p) ''last_used'' = Some lu0
                       \<and> r = vocab_record (snd p) (fst (or_now lu0 c)))
         new (firsts (\<lambda>p. vocab_key (snd p)) (insert (vocab_key f) seen) (zip its fs))" by blast
    show ?thesis
      using a b c f False lu0
      by (intro exI[of _ "f # fs"] exI[of _ "vocab_record f (fst (or_now lu0 clk)) # new"]) auto
  qed
qed

section \<open>What \<^verbatim>\<open>deduplicate_user\<close> leaves in the vocabulary\<close>

lemmas dedup_eval =
  save_global_def deduplicate_global_def deduplicate_user_def vocab_fields_def history_fields_def
  rebuild_turn_def history_record_def vocab_record_def vocab_key_def or_now_def now_iso_def
  py_or_def last_n_def

lemmas example_eval =
  user_of_def entry_a_def entry_b_def vocab_user_def int_str_none_def

lemma get_set_item_other:
  "set_item m k v = Some m' \<Longrightarrow> k' \<noteq> k \<Longrightarrow> get m' k' = get m k'"
  by (cases m) (auto simp: update_conv')

lemma get_set_item_same:
  "set_item m k v = Some m' \<Longrightarrow> get m' k = Some v"
  by (cases m) (auto simp: update_conv')

lemma vocab_langs_forward:
  "vocab_langs I items clk = Some (items', clk') \<Longrightarrow> map_of items lang = Some vlist \<Longrightarrow>
   \<exists>its c c' out. py_iter vlist = Some its \<and> vocab_loop I its {} [] c = Some (out, c')
      \<and> map_of items' lang = Some (JList out)"
proof (induction items arbitrary: clk items' clk')
  case Nil
  then show ?case by simp
next
  case (Cons lv rest)
  from Cons.prems(1) obtain its unique clk1 rest' where
    its: "py_iter (snd lv) = Some its"
    and loop: "vocab_loop I its {} [] clk = Some (unique, clk1)"
    and rest: "vocab_langs I rest clk1 = Some (rest', clk')"
    and items': "items' = (fst lv, JList unique) # rest'"
    by (auto split: option.splits prod.splits)
  show ?case
  proof (cases "fst lv = lang")
    case True
    with Cons.prems(2) have "vlist = snd lv" by (cases lv) auto
    with its loop items' True show ?thesis by auto
  next
    case False
    with Cons.prems(2) have "map_of rest lang = Some vlist" by (cases lv) auto
    from Cons.IH[OF rest this] items' False show ?thesis by auto
  qed
qed

lemma dedup_user_vocab_clk:
  assumes "deduplicate_user I mem clk = Some (mem', clk')"
  shows "\<exists>cv items items' c'. get_default mem ''custom_vocab'' (JDict []) = Some cv
           \<and> dict_items cv = Some items \<and> vocab_langs I items clk = Some (items', c')
           \<and> get mem' ''custom_vocab'' = (if items = [] then get mem ''custom_vocab'' else Some (JDict items'))"
proof -
  from assms obtain cv items items' clk1 mem1 hist turns unique clk2 mem2 stats rec rec' stats' where
    cv: "get_default mem ''custom_vocab'' (JDict []) = Some cv"
    and items: "dict_items cv = Some items"
    and langs: "vocab_langs I items clk = Some (items', clk1)"
    and mem1: "(if items = [] then Some mem else set_item mem ''custom_vocab'' (JDict items')) = Some mem1"
    and mem2: "set_item mem1 ''conversation_history'' (JList (last_n 500 unique)) = Some mem2"
    and mem3: "set_item mem2 ''stats'' stats' = Some mem'"
    unfolding deduplicate_user_def
    by (auto simp: bind_eq_Some_conv split: prod.splits)
  have "get mem' ''custom_vocab'' = get mem1 ''custom_vocab''"
    using get_set_item_other[OF mem3, of "''custom_vocab''"]
      get_set_item_other[OF mem2, of "''custom_vocab''"] by simp
  moreover have "get mem1 ''custom_vocab'' = (if items = [] then get mem ''custom_vocab'' else Some (JDict items'))"
    using mem1 by (auto simp: get_set_item_same split: if_splits)
  ultimately show ?thesis using cv items langs by auto
qed


lemma dedup_user_vocab:
  assumes "deduplicate_user I mem clk = Some (mem', clk')"
  shows "\<exists>cv items items' c c'. get_default mem ''custom_vocab'' (JDict []) = Some cv
           \<and> dict_items cv = Some items \<and> vocab_langs I items c = Some (items', c')
           \<and> get mem' ''custom_vocab'' = (if items = [] then get mem ''custom_vocab'' else Some (JDict items'))"
  using dedup_user_vocab_clk[OF assms] by blast

lemma dropWhile_rev_dropWhile:
  "dropWhile P (rev (dropWhile P (rev (dropWhile P s)))) = rev (dropWhile P (rev (dropWhile P s)))"
proof (cases "dropWhile P (rev (dropWhile P s)) = []")
  case True
  show ?thesis unfolding True by simp
next
  case False
  define d where "d = dropWhile P s"
  define e where "e = dropWhile P (rev d)"
  from False have ne: "e \<noteq> []" by (simp add: e_def d_def)
  then have dne: "d \<noteq> []" by (auto simp: e_def)
  have hd_d: "\<not> P (hd d)" using dne unfolding d_def by (simp add: hd_dropWhile)
  have "\<exists>ys. rev d = ys @ e" unfolding e_def by (metis takeWhile_dropWhile_id)
  then obtain ys where ys: "rev d = ys @ e" by blast
  have "last e = last (rev d)" using ne ys by simp
  also have "\<dots> = hd d" using dne by (simp add: last_rev)
  finally have "\<not> P (hd (rev e))" using hd_d ne by (simp add: hd_rev)
  then have "dropWhile P (rev e) = rev e" using ne by (cases "rev e") auto
  then show ?thesis by (simp add: e_def d_def)
qed

lemma strip_idem: "strip (strip s) = strip s"
  unfolding strip_def by (simp add: dropWhile_rev_dropWhile dropWhile_idem)

lemma str_strip_stripped: "str_strip x = Some s \<Longrightarrow> strip s = s"
  by (cases x) (auto simp: strip_idem)

lemma vocab_fields_parts:
  assumes "vocab_fields I it = Some (native, target, topic, lvl)"
  shows "\<exists>n0 t0 c0 p0 l0.
           get it ''native'' = Some n0 \<and> get it ''target'' = Some t0
         \<and> get it ''correct_answer'' = Some c0 \<and> get it ''topic'' = Some p0
         \<and> get it ''level'' = Some l0
         \<and> str_strip (py_or n0 (JStr [])) = Some native
         \<and> str_strip (py_or (py_or t0 c0) (JStr [])) = Some target
         \<and> str_strip (py_or p0 (JStr [])) = Some topic
         \<and> py_int I (py_or l0 (JInt 1)) = Some lvl"
  using assms unfolding vocab_fields_def
  by (auto simp: bind_eq_Some_conv)

lemma or_now_truthy: "truthy (fst (or_now x c))"
  by (simp add: or_now_def now_iso_def)

lemma entry_key_Some: "vocab_fields I it = Some f \<Longrightarrow> entry_key I it = Some (vocab_key f)"
  by (simp add: entry_key_def)

lemma unstamped_Cons:
  "get it ''last_used'' = Some lu0 \<Longrightarrow>
     unstamped (it # its) = (if truthy lu0 then 0 else 1) + unstamped its"
  by (simp add: unstamped_def falsy_at_def)

lemma unstamped_Nil [simp]: "unstamped [] = 0"
  by (simp add: unstamped_def)

lemma or_now_fst: "fst (or_now x clk) = (if truthy x then x else JStr (clk 0 @ ''Z''))"
  by (simp add: or_now_def now_iso_def)

lemma or_now_snd: "snd (or_now x clk) = (if truthy x then clk else (\<lambda>n. clk (Suc n)))"
  by (simp add: or_now_def now_iso_def)

lemma vocab_loop_exact:
  "vocab_loop I its seen unique clk = Some (out, clk') \<Longrightarrow>
   \<exists>new. out = unique @ new
     \<and> length new = length (firsts (entry_key I) (Some ` seen) its)
     \<and> clk' = (\<lambda>n. clk (n + unstamped (firsts (entry_key I) (Some ` seen) its)))
     \<and> (\<forall>j<length new. \<exists>f lu0.
            vocab_fields I (firsts (entry_key I) (Some ` seen) its ! j) = Some f
          \<and> get (firsts (entry_key I) (Some ` seen) its ! j) ''last_used'' = Some lu0
          \<and> new ! j = vocab_record f
                (if truthy lu0 then lu0
                 else JStr (clk (unstamped (take j (firsts (entry_key I) (Some ` seen) its))) @ ''Z'')))"
proof (induction its arbitrary: seen unique clk)
  case Nil
  then show ?case by simp
next
  case (Cons it its)
  from Cons.prems obtain f where f: "vocab_fields I it = Some f"
    by (auto split: option.splits)
  have ek: "entry_key I it = Some (vocab_key f)" using f by (rule entry_key_Some)
  show ?case
  proof (cases "vocab_key f \<in> seen")
    case True
    with Cons.prems f have run: "vocab_loop I its seen unique clk = Some (out, clk')" by simp
    have S: "firsts (entry_key I) (Some ` seen) (it # its) = firsts (entry_key I) (Some ` seen) its"
      using ek True by simp
    from Cons.IH[OF run] show ?thesis unfolding S .
  next
    case False
    with Cons.prems f obtain lu0 where lu0: "get it ''last_used'' = Some lu0"
      and run: "vocab_loop I its (insert (vocab_key f) seen)
                 (unique @ [vocab_record f (fst (or_now lu0 clk))]) (snd (or_now lu0 clk)) = Some (out, clk')"
      by (auto split: option.splits)
    define S' where "S' = firsts (entry_key I) (Some ` insert (vocab_key f) seen) its"
    have S: "firsts (entry_key I) (Some ` seen) (it # its) = it # S'"
      using ek False by (auto simp: S'_def)
    define clk1 where "clk1 = snd (or_now lu0 clk)"
    define d where "d = (if truthy lu0 then 0 else 1 :: nat)"
    have clk1: "clk1 = (\<lambda>n. clk (n + d))"
      by (auto simp: clk1_def d_def or_now_snd)
    from Cons.IH[OF run, folded S'_def clk1_def] obtain new' where
      o: "out = (unique @ [vocab_record f (fst (or_now lu0 clk))]) @ new'"
      and l: "length new' = length S'"
      and c: "clk' = (\<lambda>n. clk1 (n + unstamped S'))"
      and e: "\<forall>j<length new'. \<exists>f lu0.
            vocab_fields I (S' ! j) = Some f \<and> get (S' ! j) ''last_used'' = Some lu0
          \<and> new' ! j = vocab_record f
                (if truthy lu0 then lu0 else JStr (clk1 (unstamped (take j S')) @ ''Z''))"
      by blast
    define new where "new = vocab_record f (fst (or_now lu0 clk)) # new'"
    have u: "\<And>xs. unstamped (it # xs) = d + unstamped xs"
      using unstamped_Cons[OF lu0] by (simp add: d_def)
    have o': "out = unique @ new" using o by (simp add: new_def)
    have l': "length new = length (it # S')" using l by (simp add: new_def)
    have c': "clk' = (\<lambda>n. clk (n + unstamped (it # S')))"
      unfolding c clk1 u by (simp add: ac_simps)
    have e': "\<forall>j<length new. \<exists>f lu0.
            vocab_fields I ((it # S') ! j) = Some f \<and> get ((it # S') ! j) ''last_used'' = Some lu0
          \<and> new ! j = vocab_record f
                (if truthy lu0 then lu0 else JStr (clk (unstamped (take j (it # S'))) @ ''Z''))"
    proof (intro allI impI)
      fix j assume j: "j < length new"
      show "\<exists>f lu0.
            vocab_fields I ((it # S') ! j) = Some f \<and> get ((it # S') ! j) ''last_used'' = Some lu0
          \<and> new ! j = vocab_record f
                (if truthy lu0 then lu0 else JStr (clk (unstamped (take j (it # S'))) @ ''Z''))"
      proof (cases j)
        case 0
        show ?thesis
          unfolding 0 using f lu0 by (simp add: new_def or_now_fst)
      next
        case (Suc k)
        with j have k: "k < length new'" by (simp add: new_def)
        from e k obtain g l0 where g: "vocab_fields I (S' ! k) = Some g"
          and l0: "get (S' ! k) ''last_used'' = Some l0"
          and n: "new' ! k = vocab_record g
                (if truthy l0 then l0 else JStr (clk1 (unstamped (take k S')) @ ''Z''))"
          by blast
        have "clk1 (unstamped (take k S')) = clk (unstamped (take (Suc k) (it # S')))"
          unfolding clk1 by (simp add: u ac_simps)
        with g l0 n show ?thesis
          unfolding Suc by (simp add: new_def)
      qed
    qed
    show ?thesis
      unfolding S using o' l' c' e' by blast
  qed
qed


lemma kept_exact:
  assumes "vocab_loop I its {} [] clk = Some (out, clk')"
  shows "length out = length (kept I its)
     \<and> clk' = (\<lambda>n. clk (n + unstamped (kept I its)))
     \<and> (\<forall>j<length out. \<exists>f lu0.
            vocab_fields I (kept I its ! j) = Some f
          \<and> get (kept I its ! j) ''last_used'' = Some lu0
          \<and> out ! j = vocab_record f
                (if truthy lu0 then lu0
                 else JStr (clk (unstamped (take j (kept I its))) @ ''Z'')))"
  using vocab_loop_exact[OF assms, unfolded image_empty append_Nil] unfolding kept_def by blast

lemma entries_of_Some: "py_iter v = Some its \<Longrightarrow> entries_of v = its"
  by (simp add: entries_of_def)

lemma readings_before_0:
  "readings_before I (lv # rest) 0 j = unstamped (take j (kept I (entries_of (snd lv))))"
  by (simp add: readings_before_def)

lemma readings_before_Suc:
  "readings_before I (lv # rest) (Suc a) j
     = unstamped (kept I (entries_of (snd lv))) + readings_before I rest a j"
  by (simp add: readings_before_def)

lemma vocab_langs_exact:
  "vocab_langs I items clk = Some (items', clk') \<Longrightarrow>
   length items' = length items
   \<and> (\<forall>a<length items. \<exists>its out.
          py_iter (snd (items ! a)) = Some its
        \<and> items' ! a = (fst (items ! a), JList out)
        \<and> length out = length (kept I its)
        \<and> (\<forall>j<length out. \<exists>f lu0.
               vocab_fields I (kept I its ! j) = Some f
             \<and> get (kept I its ! j) ''last_used'' = Some lu0
             \<and> out ! j = vocab_record f
                   (if truthy lu0 then lu0
                    else JStr (clk (readings_before I items a j) @ ''Z''))))"
proof (induction items arbitrary: clk items' clk')
  case Nil
  then show ?case by simp
next
  case (Cons lv rest)
  from Cons.prems obtain its unique clk1 rest' where
    its: "py_iter (snd lv) = Some its"
    and loop: "vocab_loop I its {} [] clk = Some (unique, clk1)"
    and rest: "vocab_langs I rest clk1 = Some (rest', clk')"
    and items': "items' = (fst lv, JList unique) # rest'"
    by (auto split: option.splits prod.splits)
  note eo = entries_of_Some[OF its]
  from kept_exact[OF loop] have
    lu: "length unique = length (kept I its)"
    and c1: "clk1 = (\<lambda>n. clk (n + unstamped (kept I its)))"
    and eu: "\<forall>j<length unique. \<exists>f lu0.
            vocab_fields I (kept I its ! j) = Some f
          \<and> get (kept I its ! j) ''last_used'' = Some lu0
          \<and> unique ! j = vocab_record f
                (if truthy lu0 then lu0
                 else JStr (clk (unstamped (take j (kept I its))) @ ''Z''))"
    by blast+
  from Cons.IH[OF rest] have
    lr: "length rest' = length rest"
    and er: "\<forall>a<length rest. \<exists>its out.
          py_iter (snd (rest ! a)) = Some its
        \<and> rest' ! a = (fst (rest ! a), JList out)
        \<and> length out = length (kept I its)
        \<and> (\<forall>j<length out. \<exists>f lu0.
               vocab_fields I (kept I its ! j) = Some f
             \<and> get (kept I its ! j) ''last_used'' = Some lu0
             \<and> out ! j = vocab_record f
                   (if truthy lu0 then lu0
                    else JStr (clk1 (readings_before I rest a j) @ ''Z'')))"
    by blast+
  have len: "length items' = length (lv # rest)" using lr items' by simp
  have each: "\<forall>a<length (lv # rest). \<exists>its out.
          py_iter (snd ((lv # rest) ! a)) = Some its
        \<and> items' ! a = (fst ((lv # rest) ! a), JList out)
        \<and> length out = length (kept I its)
        \<and> (\<forall>j<length out. \<exists>f lu0.
               vocab_fields I (kept I its ! j) = Some f
             \<and> get (kept I its ! j) ''last_used'' = Some lu0
             \<and> out ! j = vocab_record f
                   (if truthy lu0 then lu0
                    else JStr (clk (readings_before I (lv # rest) a j) @ ''Z'')))"
  proof (intro allI impI)
    fix a assume a: "a < length (lv # rest)"
    show "\<exists>its out.
          py_iter (snd ((lv # rest) ! a)) = Some its
        \<and> items' ! a = (fst ((lv # rest) ! a), JList out)
        \<and> length out = length (kept I its)
        \<and> (\<forall>j<length out. \<exists>f lu0.
               vocab_fields I (kept I its ! j) = Some f
             \<and> get (kept I its ! j) ''last_used'' = Some lu0
             \<and> out ! j = vocab_record f
                   (if truthy lu0 then lu0
                    else JStr (clk (readings_before I (lv # rest) a j) @ ''Z'')))"
    proof (cases a)
      case 0
      show ?thesis
        unfolding 0 readings_before_0 eo
        apply (rule exI[of _ its], rule exI[of _ unique])
        using its items' lu eu by simp
    next
      case (Suc b)
      with a have b: "b < length rest" by simp
      from er b obtain its2 out2 where
        i2: "py_iter (snd (rest ! b)) = Some its2"
        and r2: "rest' ! b = (fst (rest ! b), JList out2)"
        and l2: "length out2 = length (kept I its2)"
        and e2: "\<forall>j<length out2. \<exists>f lu0.
               vocab_fields I (kept I its2 ! j) = Some f
             \<and> get (kept I its2 ! j) ''last_used'' = Some lu0
             \<and> out2 ! j = vocab_record f
                   (if truthy lu0 then lu0
                    else JStr (clk1 (readings_before I rest b j) @ ''Z''))"
        by blast
      have sh: "\<And>j. clk1 (readings_before I rest b j) = clk (readings_before I (lv # rest) (Suc b) j)"
        unfolding c1 readings_before_Suc eo by (simp add: ac_simps)
      note e2' = e2[unfolded sh]
      show ?thesis
        unfolding Suc
        apply (rule exI[of _ its2], rule exI[of _ out2])
        using i2 r2 l2 e2' items' by simp
    qed
  qed
  from len each show ?case by blast
qed

lemmas clock_eval =
  two_lang_vocab_def two_lang_user_def two_lang_vocab_deduped_def two_lang_user_deduped_def
  entry_c_def entry_d_def entry_e_def ticking_clock_def

lemmas kept_eval =
  readings_before_def unstamped_def kept_def entry_key_def entries_of_def falsy_at_def

text \<open>
  C10. After \<^verbatim>\<open>deduplicate_user\<close>, the entry at any position \<open>j\<close> of the vocabulary list of
  any language (position \<open>a\<close> of the dict) is a dict with exactly the keys \<^verbatim>\<open>native\<close>,
  \<^verbatim>\<open>target\<close>, \<^verbatim>\<open>topic\<close>, \<^verbatim>\<open>level\<close>, \<^verbatim>\<open>last_used\<close>, in that order, rebuilt from
  the entry \<open>it\<close> at position \<open>j\<close> of the kept entries of the list the user had for that
  language: \<^verbatim>\<open>native\<close>, \<^verbatim>\<open>target\<close> and \<^verbatim>\<open>topic\<close> are the stripped strings
  \<^verbatim>\<open>(it.get("native") or "")\<close>,
  \<^verbatim>\<open>(it.get("target") or it.get("correct_answer") or "")\<close> and
  \<^verbatim>\<open>(it.get("topic") or "")\<close>, and stripping them again changes nothing; \<^verbatim>\<open>level\<close> is
  the integer \<^verbatim>\<open>int(it.get("level") or 1)\<close>, which is 1 when the entry has no level;
  \<^verbatim>\<open>target\<close> comes from \<^verbatim>\<open>correct_answer\<close> when the entry's own \<^verbatim>\<open>target\<close> is missing or
  empty; no other key of \<open>it\<close> is kept. \<^verbatim>\<open>last_used\<close> is truthy: it is the entry's own
  value when that is truthy, and otherwise the reading that the clock of the run gives
  at that moment followed by \<^verbatim>\<open>Z\<close>, that is reading number \<open>readings_before I cv a j\<close> of
  the clock \<open>clk\<close> that the run started with.
\<close>

theorem vocab_entry_rebuilt:
  assumes run: "deduplicate_user I mem clk = Some (mem', clk')"
      and cv': "get mem' ''custom_vocab'' = Some (JDict cv')"
      and a: "a < length cv'"
      and out: "cv' ! a = (lang, JList out)"
      and j: "j < length out"
  shows "\<exists>cv vlist its it native target topic lvl lu n0 t0 c0 p0 l0 lu0.
           get mem ''custom_vocab'' = Some (JDict cv) \<and> length cv = length cv'
         \<and> cv ! a = (lang, vlist) \<and> py_iter vlist = Some its
         \<and> length out = length (kept I its) \<and> it = kept I its ! j \<and> it \<in> set its
         \<and> out ! j = JDict [(''native'', JStr native), (''target'', JStr target), (''topic'', JStr topic),
                             (''level'', JInt lvl), (''last_used'', lu)]
         \<and> get it ''native'' = Some n0 \<and> get it ''target'' = Some t0
         \<and> get it ''correct_answer'' = Some c0 \<and> get it ''topic'' = Some p0
         \<and> get it ''level'' = Some l0 \<and> get it ''last_used'' = Some lu0
         \<and> str_strip (py_or n0 (JStr [])) = Some native \<and> strip native = native
         \<and> str_strip (py_or (py_or t0 c0) (JStr [])) = Some target \<and> strip target = target
         \<and> str_strip (py_or p0 (JStr [])) = Some topic \<and> strip topic = topic
         \<and> (\<not> truthy t0 \<longrightarrow> str_strip (py_or c0 (JStr [])) = Some target)
         \<and> py_int I (py_or l0 (JInt 1)) = Some lvl
         \<and> (l0 = JNull \<longrightarrow> lvl = 1)
         \<and> truthy lu
         \<and> (if truthy lu0 then lu = lu0
             else lu = JStr (clk (readings_before I cv a j) @ ''Z''))"
proof -
  from dedup_user_vocab_clk[OF run] obtain cv items items' c' where
    cv: "get_default mem ''custom_vocab'' (JDict []) = Some cv"
    and items: "dict_items cv = Some items"
    and langs: "vocab_langs I items clk = Some (items', c')"
    and res: "get mem' ''custom_vocab'' = (if items = [] then get mem ''custom_vocab'' else Some (JDict items'))"
    by blast
  have cvd: "cv = JDict items" using items by (cases cv) auto
  have ne: "items \<noteq> []"
  proof
    assume e: "items = []"
    with res cv' have "get mem ''custom_vocab'' = Some (JDict cv')" by simp
    with cv cvd e have "cv' = []" by (cases mem) (auto split: option.splits)
    with a show False by simp
  qed
  with res cv' have cv'_eq: "cv' = items'" by simp
  have getcv: "get mem ''custom_vocab'' = Some (JDict items)"
    using cv cvd ne by (cases mem) (auto split: option.splits)
  from vocab_langs_exact[OF langs] have
    len: "length items' = length items"
    and each: "\<forall>a<length items. \<exists>its out.
          py_iter (snd (items ! a)) = Some its
        \<and> items' ! a = (fst (items ! a), JList out)
        \<and> length out = length (kept I its)
        \<and> (\<forall>j<length out. \<exists>f lu0.
               vocab_fields I (kept I its ! j) = Some f
             \<and> get (kept I its ! j) ''last_used'' = Some lu0
             \<and> out ! j = vocab_record f
                   (if truthy lu0 then lu0
                    else JStr (clk (readings_before I items a j) @ ''Z'')))"
    by blast+
  have a': "a < length items" using a cv'_eq len by simp
  from each a' obtain its out2 where
    its: "py_iter (snd (items ! a)) = Some its"
    and ia: "items' ! a = (fst (items ! a), JList out2)"
    and lo: "length out2 = length (kept I its)"
    and eo: "\<forall>j<length out2. \<exists>f lu0.
               vocab_fields I (kept I its ! j) = Some f
             \<and> get (kept I its ! j) ''last_used'' = Some lu0
             \<and> out2 ! j = vocab_record f
                   (if truthy lu0 then lu0
                    else JStr (clk (readings_before I items a j) @ ''Z''))"
    by blast
  from ia out cv'_eq have o2: "out2 = out" and lg: "fst (items ! a) = lang" by simp_all
  define vlist where "vlist = snd (items ! a)"
  have ca: "items ! a = (lang, vlist)" using lg by (simp add: vlist_def prod_eq_iff)
  define it where "it = kept I its ! j"
  from eo j o2 obtain f lu0 where
    fld: "vocab_fields I it = Some f"
    and lu0: "get it ''last_used'' = Some lu0"
    and rr: "out ! j = vocab_record f
                   (if truthy lu0 then lu0
                    else JStr (clk (readings_before I items a j) @ ''Z''))"
    unfolding it_def by blast
  define lu where "lu = (if truthy lu0 then lu0
                    else JStr (clk (readings_before I items a j) @ ''Z''))"
  have mem_its: "it \<in> set its"
  proof -
    have "it \<in> set (kept I its)" using j lo o2 by (simp add: it_def)
    then show ?thesis
      using firsts_subset[of "entry_key I" "{}" its] by (auto simp: kept_def)
  qed
  obtain native target topic lvl where f: "f = (native, target, topic, lvl)"
    by (cases f) auto
  from vocab_fields_parts[OF fld[unfolded f]] obtain n0 t0 c0 p0 l0 where parts:
    "get it ''native'' = Some n0" "get it ''target'' = Some t0"
    "get it ''correct_answer'' = Some c0" "get it ''topic'' = Some p0"
    "get it ''level'' = Some l0"
    "str_strip (py_or n0 (JStr [])) = Some native"
    "str_strip (py_or (py_or t0 c0) (JStr [])) = Some target"
    "str_strip (py_or p0 (JStr [])) = Some topic"
    "py_int I (py_or l0 (JInt 1)) = Some lvl" by blast
  have st: "strip native = native" "strip target = target" "strip topic = topic"
    using parts(6-8) by (auto dest: str_strip_stripped)
  have rec: "out ! j = JDict [(''native'', JStr native), (''target'', JStr target), (''topic'', JStr topic),
                       (''level'', JInt lvl), (''last_used'', lu)]"
    using rr f by (simp only: vocab_record_def lu_def prod.case)
  have fb: "\<not> truthy t0 \<longrightarrow> str_strip (py_or c0 (JStr [])) = Some target"
    using parts(7) by (auto simp: py_or_def split: if_splits)
  have dflt: "l0 = JNull \<longrightarrow> lvl = 1"
    using parts(9) by (auto simp: py_or_def)
  have tl: "truthy lu" by (simp add: lu_def)
  have luc: "(if truthy lu0 then lu = lu0
             else lu = JStr (clk (readings_before I items a j) @ ''Z''))"
    by (simp add: lu_def)
  have l1: "length items = length cv'" using len cv'_eq by simp
  have l2: "length out = length (kept I its)" using lo o2 by simp
  have its': "py_iter vlist = Some its" using its by (simp add: vlist_def)
  have iteq: "it = kept I its ! j" by (rule it_def)
  show ?thesis
    apply (rule exI[of _ items], rule exI[of _ vlist], rule exI[of _ its], rule exI[of _ it])
    apply (rule exI[of _ native], rule exI[of _ target], rule exI[of _ topic], rule exI[of _ lvl])
    apply (rule exI[of _ lu], rule exI[of _ n0], rule exI[of _ t0])
    apply (rule exI[of _ c0], rule exI[of _ p0], rule exI[of _ l0], rule exI[of _ lu0])
    using getcv l1 ca its' l2 iteq mem_its rec parts lu0 st fb dflt tl luc
    apply (intro conjI)
                        apply assumption+
    done
qed


theorem vocab_entry_rebuilt_witness:
  "deduplicate_user int_str_none two_lang_user ticking_clock
     = Some (two_lang_user_deduped, \<lambda>n. ticking_clock (n + 2))
   \<and> get two_lang_user_deduped ''custom_vocab'' = Some (JDict two_lang_vocab_deduped)
   \<and> (1::nat) < length two_lang_vocab_deduped
   \<and> two_lang_vocab_deduped ! 1
        = (''fr'', JList [vocab_record (''merci'', ''thanks'', [], 1) (JStr ''2024-05-01T10:00:01Z'')])
   \<and> (0::nat) < length [vocab_record (''merci'', ''thanks'', [], 1) (JStr ''2024-05-01T10:00:01Z'')]
   \<and> get two_lang_user ''custom_vocab'' = Some (JDict two_lang_vocab)
   \<and> two_lang_vocab ! 1 = (''fr'', JList [entry_e])
   \<and> get entry_e ''target'' = Some JNull \<and> get entry_e ''level'' = Some JNull
   \<and> get entry_e ''last_used'' = Some JNull
   \<and> readings_before int_str_none two_lang_vocab 1 0 = 1
   \<and> ticking_clock 1 @ ''Z'' = ''2024-05-01T10:00:01Z''
   \<and> (\<exists>native target topic lvl lu.
          [vocab_record (''merci'', ''thanks'', [], 1) (JStr ''2024-05-01T10:00:01Z'')] ! 0
            = JDict [(''native'', JStr native), (''target'', JStr target), (''topic'', JStr topic),
                     (''level'', JInt lvl), (''last_used'', lu)]
          \<and> str_strip (py_or JNull (JStr [])) = Some topic
          \<and> str_strip (py_or (JStr '' thanks'') (JStr [])) = Some target
          \<and> lvl = 1
          \<and> lu = JStr (ticking_clock (readings_before int_str_none two_lang_vocab 1 0) @ ''Z''))"
proof -
  let ?r = "vocab_record (''merci'', ''thanks'', [], 1) (JStr ''2024-05-01T10:00:01Z'')"
  have h1: "deduplicate_user int_str_none two_lang_user ticking_clock
     = Some (two_lang_user_deduped, \<lambda>n. ticking_clock (n + 2))"
    by (simp add: clock_eval example_eval dedup_eval string_eval)
  have h2: "get two_lang_user_deduped ''custom_vocab'' = Some (JDict two_lang_vocab_deduped)"
    by (simp add: two_lang_user_deduped_def user_of_def)
  have h3: "(1::nat) < length two_lang_vocab_deduped"
    by (simp add: two_lang_vocab_deduped_def)
  have h4: "two_lang_vocab_deduped ! 1 = (''fr'', JList [?r])"
    by (simp add: two_lang_vocab_deduped_def)
  have h5: "(0::nat) < length [?r]" by simp
  have g: "get two_lang_user ''custom_vocab'' = Some (JDict two_lang_vocab)"
    by (simp add: two_lang_user_def user_of_def)
  have v: "two_lang_vocab ! 1 = (''fr'', JList [entry_e])"
    by (simp add: two_lang_vocab_def)
  have e: "get entry_e ''target'' = Some JNull" "get entry_e ''level'' = Some JNull"
    "get entry_e ''last_used'' = Some JNull" "get entry_e ''topic'' = Some JNull"
    "get entry_e ''correct_answer'' = Some (JStr '' thanks'')"
    by (simp_all add: entry_e_def)
  have rb: "readings_before int_str_none two_lang_vocab 1 0 = 1"
    by (simp add: kept_eval clock_eval example_eval dedup_eval string_eval)
  have tk: "ticking_clock 1 @ ''Z'' = ''2024-05-01T10:00:01Z''"
    by (simp add: ticking_clock_def)
  from vocab_entry_rebuilt[OF h1 h2 h3 h4 h5]
  obtain cv vlist its it native target topic lvl lu n0 t0 c0 p0 l0 lu0 where
    a: "get two_lang_user ''custom_vocab'' = Some (JDict cv)"
       "cv ! 1 = (''fr'', vlist)" "py_iter vlist = Some its" "it \<in> set its"
       "[?r] ! 0 = JDict [(''native'', JStr native), (''target'', JStr target), (''topic'', JStr topic),
                     (''level'', JInt lvl), (''last_used'', lu)]"
       "get it ''target'' = Some t0" "get it ''correct_answer'' = Some c0"
       "get it ''topic'' = Some p0" "get it ''level'' = Some l0" "get it ''last_used'' = Some lu0"
       "str_strip (py_or p0 (JStr [])) = Some topic"
       "\<not> truthy t0 \<longrightarrow> str_strip (py_or c0 (JStr [])) = Some target"
       "l0 = JNull \<longrightarrow> lvl = 1"
       "if truthy lu0 then lu = lu0
        else lu = JStr (ticking_clock (readings_before int_str_none cv 1 0) @ ''Z'')"
    by blast
  from a(1) g have cv: "cv = two_lang_vocab" by simp
  from a(2) cv v have "vlist = JList [entry_e]" by simp
  with a(3) have "its = [entry_e]" by simp
  with a(4) have it: "it = entry_e" by simp
  from a(6-10) e have vals: "t0 = JNull" "c0 = JStr '' thanks''" "p0 = JNull" "l0 = JNull" "lu0 = JNull"
    unfolding it by simp_all
  have body: "[?r] ! 0 = JDict [(''native'', JStr native), (''target'', JStr target), (''topic'', JStr topic),
                     (''level'', JInt lvl), (''last_used'', lu)]
          \<and> str_strip (py_or JNull (JStr [])) = Some topic
          \<and> str_strip (py_or (JStr '' thanks'') (JStr [])) = Some target
          \<and> lvl = 1
          \<and> lu = JStr (ticking_clock (readings_before int_str_none two_lang_vocab 1 0) @ ''Z'')"
    using a(5) a(11-14) unfolding vals cv by simp
  then have ex: "\<exists>native target topic lvl lu.
          [?r] ! 0 = JDict [(''native'', JStr native), (''target'', JStr target), (''topic'', JStr topic),
                     (''level'', JInt lvl), (''last_used'', lu)]
          \<and> str_strip (py_or JNull (JStr [])) = Some topic
          \<and> str_strip (py_or (JStr '' thanks'') (JStr [])) = Some target
          \<and> lvl = 1
          \<and> lu = JStr (ticking_clock (readings_before int_str_none two_lang_vocab 1 0) @ ''Z'')"
    by blast
  from h1 h2 h3 h4 h5 g v e(1-3) rb tk ex show ?thesis
    by (intro conjI)
qed


section \<open>The first entry of a key is the one that survives\<close>

lemma vocab_record_inject: "vocab_record f lu = vocab_record f' lu' \<Longrightarrow> f = f' \<and> lu = lu'"
  by (cases f, cases f') (simp add: vocab_record_def)

lemma get_Some_get_default:
  "get m k = Some (JDict d) \<Longrightarrow> get_default m k dflt = Some (JDict d)"
  by (cases m) (auto split: option.splits)

lemma distinct_map_nth_eq:
  "distinct (map g ys) \<Longrightarrow> a < length ys \<Longrightarrow> b < length ys \<Longrightarrow> g (ys ! a) = g (ys ! b) \<Longrightarrow> a = b"
proof (rule ccontr)
  assume d: "distinct (map g ys)" and a: "a < length ys" and b: "b < length ys"
    and e: "g (ys ! a) = g (ys ! b)" and ne: "a \<noteq> b"
  from d a b ne have "map g ys ! a \<noteq> map g ys ! b"
    by (simp add: distinct_conv_nth)
  with a b e show False by simp
qed

text \<open>
  Let two entries of one vocabulary list, at positions \<open>i < j\<close>, have the same key.
  After \<^verbatim>\<open>deduplicate_user\<close> the list of that language has exactly one entry with that
  key (position \<open>n\<close>), and it is the entry rebuilt from the first entry of the original
  list that has the key (position \<open>m\<close>, at or before \<open>i\<close>, with no entry of that key
  before it).
\<close>

lemma first_entry_of_key:
  assumes run: "deduplicate_user I mem clk = Some (mem', clk')"
      and cv: "get mem ''custom_vocab'' = Some (JDict cv)"
      and xs: "map_of cv lang = Some (JList xs)"
      and ij: "i < j" "j < length xs"
      and f1: "vocab_fields I (xs ! i) = Some f1"
      and f2: "vocab_fields I (xs ! j) = Some f2"
      and same: "vocab_key f1 = vocab_key f2"
  shows "\<exists>cv' out m n f0 lu0 c.
           get mem' ''custom_vocab'' = Some (JDict cv') \<and> map_of cv' lang = Some (JList out)
         \<and> m \<le> i \<and> vocab_fields I (xs ! m) = Some f0 \<and> vocab_key f0 = vocab_key f1
         \<and> (\<forall>m' f'. m' < m \<and> vocab_fields I (xs ! m') = Some f' \<longrightarrow> vocab_key f' \<noteq> vocab_key f1)
         \<and> get (xs ! m) ''last_used'' = Some lu0
         \<and> n < length out \<and> out ! n = vocab_record f0 (fst (or_now lu0 c))
         \<and> (\<forall>n' f' lu'. n' < length out \<and> out ! n' = vocab_record f' lu' \<and> vocab_key f' = vocab_key f1
               \<longrightarrow> n' = n)"
proof -
  let ?K = "\<lambda>p. vocab_key (snd p)"
  from dedup_user_vocab[OF run] obtain cvj items items' c c' where
    cvj: "get_default mem ''custom_vocab'' (JDict []) = Some cvj"
    and items: "dict_items cvj = Some items"
    and langs: "vocab_langs I items c = Some (items', c')"
    and res: "get mem' ''custom_vocab'' = (if items = [] then get mem ''custom_vocab'' else Some (JDict items'))"
    by blast
  from cv cvj have "cvj = JDict cv" by (simp add: get_Some_get_default)
  with items have it_eq: "items = cv" by simp
  with xs have ne: "items \<noteq> []" by auto
  with res have res': "get mem' ''custom_vocab'' = Some (JDict items')" by simp
  from vocab_langs_forward[OF langs xs[folded it_eq]] obtain d d' out where
    loop: "vocab_loop I xs {} [] d = Some (out, d')"
    and out: "map_of items' lang = Some (JList out)" by auto
  from vocab_loop_firsts[OF loop] obtain fs where
    fs: "map (vocab_fields I) xs = map Some fs"
    and la: "list_all2 (\<lambda>r p. \<exists>lu0 c. get (fst p) ''last_used'' = Some lu0
                       \<and> r = vocab_record (snd p) (fst (or_now lu0 c)))
              out (firsts ?K {} (zip xs fs))" by auto
  define F where "F = firsts ?K {} (zip xs fs)"
  have len: "length fs = length xs" using fs by (metis length_map)
  have fld: "\<And>a. a < length xs \<Longrightarrow> vocab_fields I (xs ! a) = Some (fs ! a)"
    using fs len by (metis nth_map option.inject length_map)
  have lenF: "length out = length F" using la by (simp add: F_def list_all2_lengthD)
  have dF: "distinct (map ?K F)" unfolding F_def by (rule firsts_distinct)
  from ij have i: "i < length xs" by simp
  have fi: "fs ! i = f1" using fld[OF i] f1 by simp
  have "(xs ! i, f1) \<in> set (zip xs fs)"
    using i len fi by (auto simp: in_set_zip intro!: exI[of _ i])
  then have "vocab_key f1 \<in> ?K ` set (zip xs fs) - {}"
    by (simp add: image_iff) (metis snd_conv)
  then have "vocab_key f1 \<in> set (map ?K F)"
    unfolding F_def by (simp only: firsts_keys)
  then obtain n where n: "n < length F" "?K (F ! n) = vocab_key f1"
    by (auto simp: in_set_conv_nth)
  have Fn: "F ! n \<in> set F" using n(1) by simp
  have "F ! n \<in> set (firsts ?K {} (zip xs fs))" using Fn by (simp add: F_def)
  from firsts_first[OF this] obtain m where
    m: "m < length (zip xs fs)" "zip xs fs ! m = F ! n"
    and before: "\<forall>a<m. ?K (zip xs fs ! a) \<noteq> ?K (F ! n)" by blast
  have mlt: "m < length xs" using m(1) by simp
  have Fn_eq: "F ! n = (xs ! m, fs ! m)" using m len mlt by simp
  have mi: "m \<le> i"
  proof (rule ccontr)
    assume "\<not> m \<le> i"
    then have "i < m" by simp
    with before have "?K (zip xs fs ! i) \<noteq> ?K (F ! n)" by blast
    with i len fi n(2) show False by simp
  qed
  have key0: "vocab_key (fs ! m) = vocab_key f1" using n(2) Fn_eq by simp
  have bef: "\<forall>m' f'. m' < m \<and> vocab_fields I (xs ! m') = Some f' \<longrightarrow> vocab_key f' \<noteq> vocab_key f1"
  proof (intro allI impI)
    fix m' f' assume a: "m' < m \<and> vocab_fields I (xs ! m') = Some f'"
    then have "m' < length xs" using mlt by simp
    with a fld have "fs ! m' = f'" by simp
    moreover from a before have "?K (zip xs fs ! m') \<noteq> ?K (F ! n)" by blast
    ultimately show "vocab_key f' \<noteq> vocab_key f1"
      using \<open>m' < length xs\<close> len n(2) by simp
  qed
  from list_all2_nthD[OF la[folded F_def] n(1)[folded lenF]] Fn_eq obtain lu0 c0 where
    lu0: "get (xs ! m) ''last_used'' = Some lu0"
    and on: "out ! n = vocab_record (fs ! m) (fst (or_now lu0 c0))" by auto
  have uniq: "\<forall>n' f' lu'. n' < length out \<and> out ! n' = vocab_record f' lu' \<and> vocab_key f' = vocab_key f1
               \<longrightarrow> n' = n"
  proof (intro allI impI)
    fix n' f' lu'
    assume a: "n' < length out \<and> out ! n' = vocab_record f' lu' \<and> vocab_key f' = vocab_key f1"
    then have n': "n' < length F" using lenF by simp
    from list_all2_nthD[OF la[folded F_def]] a obtain l c where
      "out ! n' = vocab_record (snd (F ! n')) (fst (or_now l c))" by blast
    with a have "vocab_record (snd (F ! n')) (fst (or_now l c)) = vocab_record f' lu'" by simp
    then have "snd (F ! n') = f'" by (rule vocab_record_inject[THEN conjunct1])
    with a have "?K (F ! n') = ?K (F ! n)" using n(2) by simp
    from distinct_map_nth_eq[OF dF n' n(1) this] show "n' = n" .
  qed
  have nlt: "n < length out" using n(1) lenF by simp
  show ?thesis
    apply (rule exI[of _ items'], rule exI[of _ out], rule exI[of _ m], rule exI[of _ n])
    apply (rule exI[of _ "fs ! m"], rule exI[of _ lu0], rule exI[of _ c0])
    using res' out mi fld[OF mlt] key0 bef lu0 nlt on uniq apply (intro conjI)
             apply assumption+
    done
qed

lemma vocab_key_eq:
  "vocab_key (n, t, p, l) = vocab_key (n', t', p', l')
     \<longleftrightarrow> normalize_str n = normalize_str n' \<and> normalize_str t = normalize_str t' \<and> p = p' \<and> l = l'"
  by (simp add: vocab_key_def)

text \<open>
  C5. Let the entries at positions \<open>i < j\<close> of the vocabulary list of a language have
  the same identity key: their stripped natives \<open>n1\<close>, \<open>n2\<close> have the same normal form,
  their stripped targets \<open>t1\<close>, \<open>t2\<close> have the same normal form, and their topics and
  levels are equal. Let \<open>m\<close> be the position of the first entry of the list with that key
  (so \<open>m\<close> is at most \<open>i\<close>, and no entry before \<open>m\<close> agrees with \<open>n1\<close>, \<open>t1\<close>, the topic
  and the level in all four components), and \<open>n0\<close>, \<open>t0\<close> its stripped native and target.
  After \<^verbatim>\<open>deduplicate_user\<close> the list of that language has, at some position \<open>n\<close>, the
  entry with the native \<open>n0\<close>, the target \<open>t0\<close>, that topic and that level, and with the
  \<^verbatim>\<open>last_used\<close> of the entry at \<open>m\<close> when that is truthy; and \<open>n\<close> is the only position of
  the list whose entry has that key.
\<close>

theorem first_vocab_entry_survives:
  assumes run: "deduplicate_user I mem clk = Some (mem', clk')"
      and cv: "get mem ''custom_vocab'' = Some (JDict cv)"
      and xs: "map_of cv lang = Some (JList xs)"
      and ij: "i < j" "j < length xs"
      and f1: "vocab_fields I (xs ! i) = Some (n1, t1, p1, l1)"
      and f2: "vocab_fields I (xs ! j) = Some (n2, t2, p2, l2)"
      and same: "normalize_str n1 = normalize_str n2" "normalize_str t1 = normalize_str t2"
                "p1 = p2" "l1 = l2"
  shows "\<exists>cv' out m n n0 t0 lu0 lu.
           get mem' ''custom_vocab'' = Some (JDict cv') \<and> map_of cv' lang = Some (JList out)
         \<and> m \<le> i \<and> vocab_fields I (xs ! m) = Some (n0, t0, p1, l1)
         \<and> normalize_str n0 = normalize_str n1 \<and> normalize_str t0 = normalize_str t1
         \<and> (\<forall>m' n' t' p' l'. m' < m \<and> vocab_fields I (xs ! m') = Some (n', t', p', l')
               \<longrightarrow> \<not> (normalize_str n' = normalize_str n1 \<and> normalize_str t' = normalize_str t1
                       \<and> p' = p1 \<and> l' = l1))
         \<and> get (xs ! m) ''last_used'' = Some lu0
         \<and> n < length out
         \<and> out ! n = JDict [(''native'', JStr n0), (''target'', JStr t0), (''topic'', JStr p1),
                             (''level'', JInt l1), (''last_used'', lu)]
         \<and> (truthy lu0 \<longrightarrow> lu = lu0)
         \<and> (\<forall>n' n'' t'' p'' l'' lu''.
               n' < length out
               \<and> out ! n' = JDict [(''native'', JStr n''), (''target'', JStr t''), (''topic'', JStr p''),
                                    (''level'', JInt l''), (''last_used'', lu'')]
               \<and> normalize_str n'' = normalize_str n1 \<and> normalize_str t'' = normalize_str t1
               \<and> p'' = p1 \<and> l'' = l1
               \<longrightarrow> n' = n)"
proof -
  have k: "vocab_key (n1, t1, p1, l1) = vocab_key (n2, t2, p2, l2)"
    using same by (simp only: vocab_key_eq)
  from first_entry_of_key[OF run cv xs ij f1 f2 k]
  obtain cv' out m n f0 lu0 c where
    r1: "get mem' ''custom_vocab'' = Some (JDict cv')" and r2: "map_of cv' lang = Some (JList out)"
    and r3: "m \<le> i" and r4: "vocab_fields I (xs ! m) = Some f0"
    and r5: "vocab_key f0 = vocab_key (n1, t1, p1, l1)"
    and r6: "\<forall>m' f'. m' < m \<and> vocab_fields I (xs ! m') = Some f'
               \<longrightarrow> vocab_key f' \<noteq> vocab_key (n1, t1, p1, l1)"
    and r7: "get (xs ! m) ''last_used'' = Some lu0"
    and r8: "n < length out" and r9: "out ! n = vocab_record f0 (fst (or_now lu0 c))"
    and r10: "\<forall>n' f' lu'. n' < length out \<and> out ! n' = vocab_record f' lu'
                 \<and> vocab_key f' = vocab_key (n1, t1, p1, l1) \<longrightarrow> n' = n"
    by blast
  obtain n0 t0 p0 l0 where f0: "f0 = (n0, t0, p0, l0)" by (cases f0) auto
  from r5 have e: "normalize_str n0 = normalize_str n1" "normalize_str t0 = normalize_str t1"
    "p0 = p1" "l0 = l1"
    unfolding f0 vocab_key_eq by simp_all
  have s4: "vocab_fields I (xs ! m) = Some (n0, t0, p1, l1)"
    using r4 f0 e by simp
  have s6: "\<forall>m' n' t' p' l'. m' < m \<and> vocab_fields I (xs ! m') = Some (n', t', p', l')
               \<longrightarrow> \<not> (normalize_str n' = normalize_str n1 \<and> normalize_str t' = normalize_str t1
                       \<and> p' = p1 \<and> l' = l1)"
  proof (intro allI impI)
    fix m' n' t' p' l'
    assume a: "m' < m \<and> vocab_fields I (xs ! m') = Some (n', t', p', l')"
    with r6 have "vocab_key (n', t', p', l') \<noteq> vocab_key (n1, t1, p1, l1)" by blast
    then show "\<not> (normalize_str n' = normalize_str n1 \<and> normalize_str t' = normalize_str t1
                       \<and> p' = p1 \<and> l' = l1)"
      unfolding vocab_key_eq .
  qed
  define lu where "lu = fst (or_now lu0 c)"
  have s9: "out ! n = JDict [(''native'', JStr n0), (''target'', JStr t0), (''topic'', JStr p1),
                             (''level'', JInt l1), (''last_used'', lu)]"
    using r9 unfolding f0 e lu_def by (simp only: vocab_record_def prod.case)
  have s9': "truthy lu0 \<longrightarrow> lu = lu0"
    by (simp add: lu_def or_now_def)
  have s10: "\<forall>n' n'' t'' p'' l'' lu''.
               n' < length out
               \<and> out ! n' = JDict [(''native'', JStr n''), (''target'', JStr t''), (''topic'', JStr p''),
                                    (''level'', JInt l''), (''last_used'', lu'')]
               \<and> normalize_str n'' = normalize_str n1 \<and> normalize_str t'' = normalize_str t1
               \<and> p'' = p1 \<and> l'' = l1
               \<longrightarrow> n' = n"
  proof (intro allI impI)
    fix n' n'' t'' p'' l'' lu''
    assume a: "n' < length out
               \<and> out ! n' = JDict [(''native'', JStr n''), (''target'', JStr t''), (''topic'', JStr p''),
                                    (''level'', JInt l''), (''last_used'', lu'')]
               \<and> normalize_str n'' = normalize_str n1 \<and> normalize_str t'' = normalize_str t1
               \<and> p'' = p1 \<and> l'' = l1"
    then have "out ! n' = vocab_record (n'', t'', p'', l'') lu''"
      by (simp only: vocab_record_def prod.case)
    moreover from a have "vocab_key (n'', t'', p'', l'') = vocab_key (n1, t1, p1, l1)"
      by (simp only: vocab_key_eq)
    ultimately show "n' = n" using r10 a by blast
  qed
  show ?thesis
    apply (rule exI[of _ cv'], rule exI[of _ out], rule exI[of _ m], rule exI[of _ n])
    apply (rule exI[of _ n0], rule exI[of _ t0], rule exI[of _ lu0], rule exI[of _ lu])
    using r1 r2 r3 s4 e(1) e(2) s6 r7 r8 s9 s9' s10
    apply (intro conjI)
               apply assumption+
    done
qed

theorem first_vocab_entry_survives_witness:
  "deduplicate_user int_str_none two_lang_user ticking_clock
     = Some (two_lang_user_deduped, \<lambda>n. ticking_clock (n + 2))
   \<and> get two_lang_user ''custom_vocab'' = Some (JDict two_lang_vocab)
   \<and> map_of two_lang_vocab ''es'' = Some (JList [entry_c, entry_a, entry_b, entry_d])
   \<and> vocab_fields int_str_none entry_c = Some (''Adios'', ''bye'', ''leave'', 2)
   \<and> vocab_fields int_str_none entry_a = Some (''Hola'', ''hello'', ''greet'', 1)
   \<and> vocab_fields int_str_none entry_b = Some (''hola'', ''Hello'', ''greet'', 1)
   \<and> normalize_str ''Hola'' = normalize_str ''hola''
   \<and> normalize_str ''hello'' = normalize_str ''Hello''
   \<and> get two_lang_user_deduped ''custom_vocab'' = Some (JDict two_lang_vocab_deduped)
   \<and> map_of two_lang_vocab_deduped ''es''
        = Some (JList [vocab_record (''Adios'', ''bye'', ''leave'', 2) (JStr ''2024-05-01T10:00:00Z''),
                       vocab_record (''Hola'', ''hello'', ''greet'', 1) (JStr ''2024-01-01T09:00:00Z'')])
   \<and> (\<exists>n lu. n < (2::nat)
         \<and> [vocab_record (''Adios'', ''bye'', ''leave'', 2) (JStr ''2024-05-01T10:00:00Z''),
             vocab_record (''Hola'', ''hello'', ''greet'', 1) (JStr ''2024-01-01T09:00:00Z'')] ! n
            = JDict [(''native'', JStr ''Hola''), (''target'', JStr ''hello''), (''topic'', JStr ''greet''),
                     (''level'', JInt 1), (''last_used'', lu)]
         \<and> lu = JStr ''2024-01-01T09:00:00Z'')"
proof -
  let ?xs = "[entry_c, entry_a, entry_b, entry_d]"
  let ?out = "[vocab_record (''Adios'', ''bye'', ''leave'', 2) (JStr ''2024-05-01T10:00:00Z''),
               vocab_record (''Hola'', ''hello'', ''greet'', 1) (JStr ''2024-01-01T09:00:00Z'')]"
  have h1: "deduplicate_user int_str_none two_lang_user ticking_clock
     = Some (two_lang_user_deduped, \<lambda>n. ticking_clock (n + 2))"
    by (simp add: clock_eval example_eval dedup_eval string_eval)
  have h2: "get two_lang_user ''custom_vocab'' = Some (JDict two_lang_vocab)"
    by (simp add: two_lang_user_def user_of_def)
  have h3: "map_of two_lang_vocab ''es'' = Some (JList ?xs)"
    by (simp add: two_lang_vocab_def)
  have h4: "(1::nat) < 2" and h5: "2 < length ?xs" by simp_all
  have fc: "vocab_fields int_str_none entry_c = Some (''Adios'', ''bye'', ''leave'', 2)"
    by (simp add: clock_eval example_eval dedup_eval string_eval)
  have fa: "vocab_fields int_str_none entry_a = Some (''Hola'', ''hello'', ''greet'', 1)"
    by (simp add: example_eval dedup_eval string_eval)
  have fb: "vocab_fields int_str_none entry_b = Some (''hola'', ''Hello'', ''greet'', 1)"
    by (simp add: example_eval dedup_eval string_eval)
  have h6: "vocab_fields int_str_none (?xs ! 1) = Some (''Hola'', ''hello'', ''greet'', 1)"
    using fa by simp
  have h7: "vocab_fields int_str_none (?xs ! 2) = Some (''hola'', ''Hello'', ''greet'', 1)"
    using fb by simp
  have h8: "normalize_str ''Hola'' = normalize_str ''hola''"
    and h9: "normalize_str ''hello'' = normalize_str ''Hello''"
    by (simp_all add: string_eval)
  have g1: "get two_lang_user_deduped ''custom_vocab'' = Some (JDict two_lang_vocab_deduped)"
    by (simp add: two_lang_user_deduped_def user_of_def)
  have g2: "map_of two_lang_vocab_deduped ''es'' = Some (JList ?out)"
    by (simp add: two_lang_vocab_deduped_def)
  have la: "get entry_a ''last_used'' = Some (JStr ''2024-01-01T09:00:00Z'')"
    by (simp add: entry_a_def)
  from first_vocab_entry_survives[OF h1 h2 h3 h4 h5 h6 h7 h8 h9 refl refl]
  obtain cv' out m n n0 t0 lu0 lu where
    a: "get two_lang_user_deduped ''custom_vocab'' = Some (JDict cv')"
       "map_of cv' ''es'' = Some (JList out)"
       "m \<le> 1" "vocab_fields int_str_none (?xs ! m) = Some (n0, t0, ''greet'', 1)"
       "get (?xs ! m) ''last_used'' = Some lu0"
       "n < length out"
       "out ! n = JDict [(''native'', JStr n0), (''target'', JStr t0), (''topic'', JStr ''greet''),
                             (''level'', JInt 1), (''last_used'', lu)]"
       "truthy lu0 \<longrightarrow> lu = lu0"
    by blast
  from a(1) g1 have "cv' = two_lang_vocab_deduped" by simp
  with a(2) g2 have out: "out = ?out" by simp
  from a(3) have "m = 0 \<or> m = 1" by auto
  then have m: "m = 1"
  proof
    assume "m = 0"
    with a(4) fc show ?thesis by simp
  next
    assume "m = 1"
    then show ?thesis .
  qed
  from a(4) fa have nt: "n0 = ''Hola''" "t0 = ''hello''" unfolding m by simp_all
  from a(5) la have "lu0 = JStr ''2024-01-01T09:00:00Z''" unfolding m by simp
  with a(8) have lu: "lu = JStr ''2024-01-01T09:00:00Z''" by simp
  from a(6) out have n2: "n < 2" by simp
  from a(7) have "?out ! n = JDict [(''native'', JStr ''Hola''), (''target'', JStr ''hello''),
       (''topic'', JStr ''greet''), (''level'', JInt 1), (''last_used'', lu)]"
    unfolding out nt .
  with n2 lu have ex: "\<exists>n lu. n < (2::nat)
         \<and> ?out ! n
            = JDict [(''native'', JStr ''Hola''), (''target'', JStr ''hello''), (''topic'', JStr ''greet''),
                     (''level'', JInt 1), (''last_used'', lu)]
         \<and> lu = JStr ''2024-01-01T09:00:00Z''"
    by blast
  from h1 h2 h3 fc fa fb h8 h9 g1 g2 ex show ?thesis
    by (intro conjI)
qed

section \<open>The window of recent results after a save\<close>

lemmas store_eval =
  store_of_def store_long_window_def legacy_turn_def store_legacy_def store_legacy_once_def
  store_legacy_twice_def app_turn_def store_app_def store_app_deduped_def

text \<open>
  C1. The claim bounds \<^verbatim>\<open>stats.recent\<close> by 20 after every save. The practice handler
  trims the window to its last 20 entries, but \<^verbatim>\<open>deduplicate_user\<close> trims it with
  \<^verbatim>\<open>[-200:]\<close>. A store whose user has a window of 21 entries (as a loaded or uploaded
  document can have) is therefore written back unchanged, with all 21 entries.
\<close>

theorem save_keeps_window_of_21:
  "save_global I store_long_window clk = Some (store_long_window, clk)
   \<and> map_option length (recent_of store_long_window ''ana'') = Some 21"
  by (simp add: store_eval example_eval recent_of_def dedup_eval)

section \<open>Deduplicating twice\<close>

text \<open>
  C3. The claim is that \<^verbatim>\<open>deduplicate_global\<close> is idempotent on every store. It is not:
  the key of a history entry reads the fields \<^verbatim>\<open>ai\<close>, \<^verbatim>\<open>reply\<close> and \<^verbatim>\<open>lang\<close>, and the
  rebuilt entry does not keep them. Two entries with the same answer and different
  \<^verbatim>\<open>ai\<close> texts both survive the first run; in the second run their keys are equal and
  the later one is dropped.
\<close>

theorem dedup_not_idempotent:
  "deduplicate_global int_str_none store_legacy sample_clock = Some (store_legacy_once, sample_clock)
   \<and> deduplicate_global int_str_none store_legacy_once sample_clock
        = Some (store_legacy_twice, sample_clock)
   \<and> store_legacy_twice \<noteq> store_legacy_once"
  by (simp add: store_eval example_eval dedup_eval string_eval)

lemma vocab_fields_record:
  assumes "strip n = n" "strip t = t" "strip p = p" "l \<noteq> 0"
  shows "vocab_fields I (vocab_record (n, t, p, l) lu) = Some (n, t, p, l)"
  using assms by (simp add: vocab_fields_def vocab_record_def py_or_def strip_def)

lemma vocab_fields_stable:
  assumes f: "vocab_fields I it = Some f" and il: "int_level it"
  shows "vocab_fields I (vocab_record f lu) = Some f"
proof -
  obtain n t p l where fe: "f = (n, t, p, l)" by (cases f) auto
  from vocab_fields_parts[OF f[unfolded fe]] obtain n0 t0 c0 p0 l0 where
    g: "get it ''level'' = Some l0"
    and s: "str_strip (py_or n0 (JStr [])) = Some n" "str_strip (py_or (py_or t0 c0) (JStr [])) = Some t"
       "str_strip (py_or p0 (JStr [])) = Some p"
    and lv: "py_int I (py_or l0 (JInt 1)) = Some l" by blast
  have st: "strip n = n" "strip t = t" "strip p = p"
    using s by (auto dest: str_strip_stripped)
  from il g have "l0 = JNull \<or> (\<exists>k. l0 = JInt k)"
    by (auto simp: int_level_def split: json.splits)
  with lv have "l \<noteq> 0" by (auto simp: py_or_def split: if_splits)
  with st show ?thesis unfolding fe by (rule vocab_fields_record)
qed

lemma vocab_loop_fixed:
  assumes "\<forall>p \<in> set ps. vocab_fields I (vocab_record (fst p) (snd p)) = Some (fst p) \<and> truthy (snd p)"
      and "distinct (map (\<lambda>p. vocab_key (fst p)) ps)"
      and "\<forall>p \<in> set ps. vocab_key (fst p) \<notin> seen"
  shows "vocab_loop I (map (\<lambda>p. vocab_record (fst p) (snd p)) ps) seen unique c
           = Some (unique @ map (\<lambda>p. vocab_record (fst p) (snd p)) ps, c)"
  using assms
proof (induction ps arbitrary: seen unique)
  case Nil
  then show ?case by simp
next
  case (Cons p ps)
  have fld: "vocab_fields I (vocab_record (fst p) (snd p)) = Some (fst p)" and tr: "truthy (snd p)"
    using Cons.prems(1) by auto
  have lu: "get (vocab_record (fst p) (snd p)) ''last_used'' = Some (snd p)"
    by (cases "fst p") (simp add: vocab_record_def)
  have ns: "vocab_key (fst p) \<notin> seen" using Cons.prems(3) by simp
  have on: "or_now (snd p) c = (snd p, c)" using tr by (simp add: or_now_def)
  have rest: "vocab_loop I (map (\<lambda>p. vocab_record (fst p) (snd p)) ps) (insert (vocab_key (fst p)) seen)
                (unique @ [vocab_record (fst p) (snd p)]) c
              = Some ((unique @ [vocab_record (fst p) (snd p)]) @ map (\<lambda>p. vocab_record (fst p) (snd p)) ps, c)"
  proof (rule Cons.IH)
    show "\<forall>p \<in> set ps. vocab_fields I (vocab_record (fst p) (snd p)) = Some (fst p) \<and> truthy (snd p)"
      using Cons.prems(1) by simp
    show "distinct (map (\<lambda>p. vocab_key (fst p)) ps)" using Cons.prems(2) by simp
    show "\<forall>q \<in> set ps. vocab_key (fst q) \<notin> insert (vocab_key (fst p)) seen"
    proof
      fix q assume q: "q \<in> set ps"
      then have "vocab_key (fst q) \<in> set (map (\<lambda>p. vocab_key (fst p)) ps)" by simp
      moreover have "vocab_key (fst p) \<notin> set (map (\<lambda>p. vocab_key (fst p)) ps)"
        using Cons.prems(2) by simp
      ultimately have "vocab_key (fst q) \<noteq> vocab_key (fst p)" by metis
      moreover have "vocab_key (fst q) \<notin> seen" using Cons.prems(3) q by simp
      ultimately show "vocab_key (fst q) \<notin> insert (vocab_key (fst p)) seen" by simp
    qed
  qed
  show ?case using fld lu ns on rest by simp
qed

lemma vocab_loop_out_shape:
  assumes "vocab_loop I its seen unique clk = Some (out, clk')" and "list_all int_level its"
  shows "\<exists>ps. out = unique @ map (\<lambda>p. vocab_record (fst p) (snd p)) ps
           \<and> (\<forall>p \<in> set ps. vocab_fields I (vocab_record (fst p) (snd p)) = Some (fst p) \<and> truthy (snd p))
           \<and> (\<forall>p \<in> set ps. vocab_key (fst p) \<notin> seen)
           \<and> distinct (map (\<lambda>p. vocab_key (fst p)) ps)"
  using assms
proof (induction its arbitrary: seen unique clk)
  case Nil
  then show ?case by (intro exI[of _ "[]"]) simp
next
  case (Cons it its)
  from Cons.prems(1) obtain f where f: "vocab_fields I it = Some f"
    by (auto split: option.splits)
  have il: "int_level it" and ils: "list_all int_level its" using Cons.prems(2) by simp_all
  show ?case
  proof (cases "vocab_key f \<in> seen")
    case True
    with Cons.prems(1) f have "vocab_loop I its seen unique clk = Some (out, clk')" by simp
    from Cons.IH[OF this ils] show ?thesis .
  next
    case False
    with Cons.prems(1) f obtain lu0 where lu0: "get it ''last_used'' = Some lu0"
      and run: "vocab_loop I its (insert (vocab_key f) seen)
                 (unique @ [vocab_record f (fst (or_now lu0 clk))]) (snd (or_now lu0 clk)) = Some (out, clk')"
      by (auto split: option.splits)
    from Cons.IH[OF run ils] obtain ps where
      a: "out = (unique @ [vocab_record f (fst (or_now lu0 clk))]) @ map (\<lambda>p. vocab_record (fst p) (snd p)) ps"
      and b: "\<forall>p \<in> set ps. vocab_fields I (vocab_record (fst p) (snd p)) = Some (fst p) \<and> truthy (snd p)"
      and c: "\<forall>p \<in> set ps. vocab_key (fst p) \<notin> insert (vocab_key f) seen"
      and d: "distinct (map (\<lambda>p. vocab_key (fst p)) ps)" by blast
    let ?p = "(f, fst (or_now lu0 clk))"
    have p1: "vocab_fields I (vocab_record (fst ?p) (snd ?p)) = Some (fst ?p) \<and> truthy (snd ?p)"
      using vocab_fields_stable[OF f il] or_now_truthy by simp
    have p2: "vocab_key f \<notin> (\<lambda>p. vocab_key (fst p)) ` set ps" using c by auto
    show ?thesis
      apply (rule exI[of _ "?p # ps"])
      using a b c d p1 p2 False by simp
  qed
qed

lemma vocab_loop_twice:
  assumes "vocab_loop I its {} [] clk = Some (out, clk')" and "list_all int_level its"
  shows "vocab_loop I out {} [] c = Some (out, c)"
proof -
  from vocab_loop_out_shape[OF assms] obtain ps where
    a: "out = map (\<lambda>p. vocab_record (fst p) (snd p)) ps"
    and b: "\<forall>p \<in> set ps. vocab_fields I (vocab_record (fst p) (snd p)) = Some (fst p) \<and> truthy (snd p)"
    and d: "distinct (map (\<lambda>p. vocab_key (fst p)) ps)" by auto
  have "vocab_loop I (map (\<lambda>p. vocab_record (fst p) (snd p)) ps) {} [] c
          = Some ([] @ map (\<lambda>p. vocab_record (fst p) (snd p)) ps, c)"
    by (rule vocab_loop_fixed[OF b d]) simp
  with a show ?thesis by simp
qed

lemma vocab_langs_twice:
  assumes "vocab_langs I items clk = Some (items', clk')"
      and "\<forall>lv \<in> set items. \<forall>its. py_iter (snd lv) = Some its \<longrightarrow> list_all int_level its"
  shows "vocab_langs I items' c = Some (items', c)"
  using assms
proof (induction items arbitrary: clk items')
  case Nil
  then show ?case by simp
next
  case (Cons lv rest)
  from Cons.prems(1) obtain its unique clk1 rest' where
    its: "py_iter (snd lv) = Some its"
    and loop: "vocab_loop I its {} [] clk = Some (unique, clk1)"
    and rest: "vocab_langs I rest clk1 = Some (rest', clk')"
    and items': "items' = (fst lv, JList unique) # rest'"
    by (auto split: option.splits prod.splits)
  have "list_all int_level its" using Cons.prems(2) its by simp
  from vocab_loop_twice[OF loop this] have l2: "vocab_loop I unique {} [] c = Some (unique, c)" .
  have "vocab_langs I rest' c = Some (rest', c)"
    using Cons.IH[OF rest] Cons.prems(2) by simp
  with l2 items' show ?case by simp
qed

lemma strip_Nil [simp]: "strip [] = []"
  by (simp add: strip_def)

lemma normalize_Nil [simp]: "normalize_str [] = []"
  by (simp add: normalize_str_def)

lemma py_or_idem [simp]: "py_or (py_or x y) y = py_or x y"
  by (simp add: py_or_def)

lemma history_fields_cong_mem:
  "get m2 ''lang'' = get m ''lang'' \<Longrightarrow> history_fields m2 turn = history_fields m turn"
  by (simp add: history_fields_def)

lemma history_fields_plain:
  assumes "history_fields mem turn = Some (u, key)" and "plain_turn turn"
  shows "\<exists>ml l. get mem ''lang'' = Some ml \<and> hash_key (py_or ml (JStr [])) = Some l
           \<and> key = (normalize_str u, [], l) \<and> strip u = u"
proof -
  from assms(1) obtain y0 u0 a0 r0 tl ml l where
    g: "get turn ''ai'' = Some a0" "get turn ''reply'' = Some r0" "get turn ''lang'' = Some tl"
       "get mem ''lang'' = Some ml"
    and u: "str_strip (py_or (py_or y0 u0) (JStr [])) = Some u"
    and l: "hash_key (py_or (py_or tl ml) (JStr [])) = Some l"
    and k: "key = (normalize_str u, normalize_str (the (str_strip (py_or (py_or a0 r0) (JStr [])))), l)"
    unfolding history_fields_def by (auto simp: bind_eq_Some_conv)
  from assms(2) g have f: "\<not> truthy a0" "\<not> truthy r0" "\<not> truthy tl"
    by (simp_all add: plain_turn_def falsy_at_def)
  have "py_or (py_or a0 r0) (JStr []) = JStr []" using f by (simp add: py_or_def)
  moreover have "py_or (py_or tl ml) (JStr []) = py_or ml (JStr [])" using f by (simp add: py_or_def)
  ultimately show ?thesis using g u l k str_strip_stripped[OF u] by simp
qed

lemma rebuild_turn_shape:
  assumes "rebuild_turn turn u clk = Some (r, clk')"
  shows "\<exists>w p t s. r = history_record w p u t s \<and> truthy w
           \<and> py_or p (JStr []) = p \<and> py_or t (JStr []) = t"
proof -
  from assms obtain w0 p0 t0 s0 where
    r: "r = history_record (fst (or_now w0 clk)) (py_or p0 (JStr [])) u (py_or t0 (JStr [])) s0"
    unfolding rebuild_turn_def by (auto simp: bind_eq_Some_conv)
  show ?thesis
    apply (rule exI[of _ "fst (or_now w0 clk)"], rule exI[of _ "py_or p0 (JStr [])"])
    apply (rule exI[of _ "py_or t0 (JStr [])"], rule exI[of _ s0])
    using r by (simp add: or_now_truthy)
qed

lemma history_fields_record:
  assumes "strip u = u" and "get m ''lang'' = Some ml" and "hash_key (py_or ml (JStr [])) = Some l"
  shows "history_fields m (history_record w p u t s) = Some (u, (normalize_str u, [], l))"
  using assms
  by (cases "truthy ml"; cases "u = []") (auto simp: history_fields_def history_record_def py_or_def)

lemma rebuild_turn_record:
  assumes "truthy w" and "py_or p (JStr []) = p" and "py_or t (JStr []) = t"
  shows "rebuild_turn (history_record w p u t s) u c = Some (history_record w p u t s, c)"
  using assms by (simp add: rebuild_turn_def history_record_def or_now_def)

lemma history_loop_fixed:
  assumes "\<forall>r \<in> set rs. \<exists>u k. history_fields m r = Some (u, k) \<and> rebuild_turn r u c = Some (r, c)
                                \<and> k \<notin> seen"
      and "distinct (map (\<lambda>r. map_option snd (history_fields m r)) rs)"
  shows "history_loop m rs seen unique c = Some (unique @ rs, c)"
  using assms
proof (induction rs arbitrary: seen unique)
  case Nil
  then show ?case by simp
next
  case (Cons r rs)
  from Cons.prems(1) obtain u k where
    f: "history_fields m r = Some (u, k)" and rb: "rebuild_turn r u c = Some (r, c)"
    and ns: "k \<notin> seen" by auto
  have "history_loop m rs (insert k seen) (unique @ [r]) c = Some ((unique @ [r]) @ rs, c)"
  proof (rule Cons.IH)
    show "distinct (map (\<lambda>r. map_option snd (history_fields m r)) rs)"
      using Cons.prems(2) by simp
    show "\<forall>r' \<in> set rs. \<exists>u k'. history_fields m r' = Some (u, k') \<and> rebuild_turn r' u c = Some (r', c)
                                \<and> k' \<notin> insert k seen"
    proof
      fix r' assume r': "r' \<in> set rs"
      with Cons.prems(1) obtain u' k' where
        f': "history_fields m r' = Some (u', k')" and rb': "rebuild_turn r' u' c = Some (r', c)"
        and ns': "k' \<notin> seen" by auto
      have "map_option snd (history_fields m r) \<notin> set (map (\<lambda>r. map_option snd (history_fields m r)) rs)"
        using Cons.prems(2) by simp
      moreover have "map_option snd (history_fields m r') \<in> set (map (\<lambda>r. map_option snd (history_fields m r)) rs)"
        using r' by simp
      ultimately have "map_option snd (history_fields m r) \<noteq> map_option snd (history_fields m r')"
        by metis
      with f f' have "k' \<noteq> k" by auto
      with f' rb' ns' show "\<exists>u k'. history_fields m r' = Some (u, k') \<and> rebuild_turn r' u c = Some (r', c)
                                \<and> k' \<notin> insert k seen" by simp
    qed
  qed
  with f rb ns show ?case by simp
qed

lemma history_loop_out_shape:
  assumes "history_loop mem turns seen unique clk = Some (out, clk')" and "list_all plain_turn turns"
  shows "\<exists>rs. out = unique @ rs
           \<and> (\<forall>r \<in> set rs. \<exists>u k. history_fields mem r = Some (u, k) \<and> k \<notin> seen
                               \<and> (\<forall>c. rebuild_turn r u c = Some (r, c)))
           \<and> distinct (map (\<lambda>r. map_option snd (history_fields mem r)) rs)"
  using assms
proof (induction turns arbitrary: seen unique clk)
  case Nil
  then show ?case by (intro exI[of _ "[]"]) simp
next
  case (Cons turn turns)
  from Cons.prems(1) obtain u key where f: "history_fields mem turn = Some (u, key)"
    by (auto split: option.splits)
  have pt: "plain_turn turn" and pts: "list_all plain_turn turns" using Cons.prems(2) by simp_all
  show ?case
  proof (cases "key \<in> seen")
    case True
    with Cons.prems(1) f have "history_loop mem turns seen unique clk = Some (out, clk')" by simp
    from Cons.IH[OF this pts] show ?thesis .
  next
    case False
    with Cons.prems(1) f obtain r clk1 where rb: "rebuild_turn turn u clk = Some (r, clk1)"
      and run: "history_loop mem turns (insert key seen) (unique @ [r]) clk1 = Some (out, clk')"
      by (auto split: option.splits)
    from Cons.IH[OF run pts] obtain rs where
      a: "out = (unique @ [r]) @ rs"
      and b: "\<forall>r \<in> set rs. \<exists>u k. history_fields mem r = Some (u, k) \<and> k \<notin> insert key seen
                               \<and> (\<forall>c. rebuild_turn r u c = Some (r, c))"
      and d: "distinct (map (\<lambda>r. map_option snd (history_fields mem r)) rs)" by blast
    from history_fields_plain[OF f pt] obtain ml l where
      ml: "get mem ''lang'' = Some ml" "hash_key (py_or ml (JStr [])) = Some l"
      and key: "key = (normalize_str u, [], l)" and su: "strip u = u" by blast
    from rebuild_turn_shape[OF rb] obtain w p t s where
      r: "r = history_record w p u t s" and w: "truthy w"
      and pp: "py_or p (JStr []) = p" and tt: "py_or t (JStr []) = t" by blast
    have fr: "history_fields mem r = Some (u, key)"
      unfolding r key by (rule history_fields_record[OF su ml])
    have rr: "\<forall>c. rebuild_turn r u c = Some (r, c)"
      unfolding r using rebuild_turn_record[OF w pp tt] by simp
    have nk: "map_option snd (history_fields mem r) \<notin> (\<lambda>r. map_option snd (history_fields mem r)) ` set rs"
    proof
      assume "map_option snd (history_fields mem r) \<in> (\<lambda>r. map_option snd (history_fields mem r)) ` set rs"
      then obtain r' where r': "r' \<in> set rs"
        and e: "map_option snd (history_fields mem r') = map_option snd (history_fields mem r)" by auto
      from b r' obtain u' k' where "history_fields mem r' = Some (u', k')" "k' \<notin> insert key seen" by blast
      with e fr show False by simp
    qed
    have b': "\<forall>r \<in> set rs. \<exists>u k. history_fields mem r = Some (u, k) \<and> k \<notin> seen
                               \<and> (\<forall>c. rebuild_turn r u c = Some (r, c))"
      using b by fastforce
    show ?thesis
      apply (rule exI[of _ "r # rs"])
      using a b' d fr rr nk False by (cases key) simp
  qed
qed

lemma last_n_short: "length xs \<le> n \<Longrightarrow> last_n n xs = xs"
  by (simp add: last_n_def)

lemma last_n_idem [simp]: "last_n n (last_n n xs) = last_n n xs"
  by (simp add: last_n_short length_last_n)

lemma slice_last_idem: "slice_last n x = Some y \<Longrightarrow> slice_last n y = Some y"
  by (cases x) auto

lemma dedup_user_fixed:
  assumes V: "(case map_of d ''custom_vocab'' of None \<Rightarrow> JDict [] | Some v \<Rightarrow> v) = JDict items"
      and Vp: "items \<noteq> [] \<Longrightarrow> map_of d ''custom_vocab'' = Some (JDict items)"
      and VL: "vocab_langs I items c = Some (items, c)"
      and H: "map_of d ''conversation_history'' = Some (JList turns)"
      and HL: "history_loop (JDict d) turns {} [] c = Some (turns, c)"
      and Hn: "length turns \<le> 500"
      and S: "map_of d ''stats'' = Some (JDict sd)"
      and R: "map_of sd ''recent'' = Some r"
      and Rs: "slice_last 200 r = Some r"
  shows "deduplicate_user I (JDict d) c = Some (JDict d, c)"
proof -
  have m1: "(if items = [] then Some (JDict d) else set_item (JDict d) ''custom_vocab'' (JDict items))
              = Some (JDict d)"
    using Vp by (simp add: update_triv)
  have m2: "set_item (JDict d) ''conversation_history'' (JList (last_n 500 turns)) = Some (JDict d)"
    using H Hn by (simp add: update_triv last_n_short)
  have s1: "set_item (JDict sd) ''recent'' r = Some (JDict sd)"
    using R by (simp add: update_triv)
  have m3: "set_item (JDict d) ''stats'' (JDict sd) = Some (JDict d)"
    using S by (simp add: update_triv)
  show ?thesis
    unfolding deduplicate_user_def
    using V VL m1 H HL m2 S R Rs s1 m3 by simp
qed

lemma dict_items_Some [simp]: "dict_items x = Some items \<longleftrightarrow> x = JDict items"
  by (cases x) auto

lemma set_item_Some: "set_item x k v = Some y \<longleftrightarrow> (\<exists>d. x = JDict d \<and> y = JDict (AList.update k v d))"
  by (cases x) auto

lemma get_default_Some:
  "get_default x k dflt = Some v \<longleftrightarrow>
     (\<exists>d. x = JDict d \<and> v = (case map_of d k of None \<Rightarrow> dflt | Some w \<Rightarrow> w))"
  by (cases x) auto

lemma dedup_user_unfold:
  assumes "deduplicate_user I mem clk = Some (mem', clk')"
  shows "\<exists>d items items' clk1 d1 turns unique sd r'.
           mem = JDict d
         \<and> (case map_of d ''custom_vocab'' of None \<Rightarrow> JDict [] | Some v \<Rightarrow> v) = JDict items
         \<and> vocab_langs I items clk = Some (items', clk1)
         \<and> d1 = (if items = [] then d else AList.update ''custom_vocab'' (JDict items') d)
         \<and> py_iter (case map_of d1 ''conversation_history'' of None \<Rightarrow> JList [] | Some v \<Rightarrow> v) = Some turns
         \<and> history_loop (JDict d1) turns {} [] clk1 = Some (unique, clk')
         \<and> map_of (AList.update ''conversation_history'' (JList (last_n 500 unique)) d1) ''stats''
              = Some (JDict sd)
         \<and> slice_last 200 (case map_of sd ''recent'' of None \<Rightarrow> JList [] | Some v \<Rightarrow> v) = Some r'
         \<and> mem' = JDict (AList.update ''stats'' (JDict (AList.update ''recent'' r' sd))
                     (AList.update ''conversation_history'' (JList (last_n 500 unique)) d1))"
proof -
  from assms obtain cv items items' clk1 mem1 hist turns unique mem2 stats rec r' stats' where
    a: "get_default mem ''custom_vocab'' (JDict []) = Some cv" "dict_items cv = Some items"
       "vocab_langs I items clk = Some (items', clk1)"
       "(if items = [] then Some mem else set_item mem ''custom_vocab'' (JDict items')) = Some mem1"
       "get_default mem1 ''conversation_history'' (JList []) = Some hist" "py_iter hist = Some turns"
       "history_loop mem1 turns {} [] clk1 = Some (unique, clk')"
       "set_item mem1 ''conversation_history'' (JList (last_n 500 unique)) = Some mem2"
       "subscript mem2 ''stats'' = Some stats"
       "get_default stats ''recent'' (JList []) = Some rec"
       "slice_last 200 rec = Some r'"
       "set_item stats ''recent'' r' = Some stats'"
       "set_item mem2 ''stats'' stats' = Some mem'"
    unfolding deduplicate_user_def by (auto simp: bind_eq_Some_conv split: prod.splits)
  from a(1) obtain d where d: "mem = JDict d"
    and cv: "cv = (case map_of d ''custom_vocab'' of None \<Rightarrow> JDict [] | Some w \<Rightarrow> w)"
    by (auto simp: get_default_Some)
  define d1 where "d1 = (if items = [] then d else AList.update ''custom_vocab'' (JDict items') d)"
  have m1: "mem1 = JDict d1" using a(4) d by (auto simp: d1_def split: if_splits)
  have hist: "hist = (case map_of d1 ''conversation_history'' of None \<Rightarrow> JList [] | Some v \<Rightarrow> v)"
    using a(5) m1 by simp
  have m2: "mem2 = JDict (AList.update ''conversation_history'' (JList (last_n 500 unique)) d1)"
    using a(8) m1 by auto
  from a(9) m2 have st: "map_of (AList.update ''conversation_history'' (JList (last_n 500 unique)) d1) ''stats''
                 = Some stats" by simp
  from a(10) obtain sd where sd: "stats = JDict sd"
    and rec: "rec = (case map_of sd ''recent'' of None \<Rightarrow> JList [] | Some v \<Rightarrow> v)"
    by (auto simp: get_default_Some)
  have s': "stats' = JDict (AList.update ''recent'' r' sd)" using a(12) sd by auto
  have m': "mem' = JDict (AList.update ''stats'' (JDict (AList.update ''recent'' r' sd))
                     (AList.update ''conversation_history'' (JList (last_n 500 unique)) d1))"
    using a(13) m2 s' by auto
  show ?thesis
    apply (rule exI[of _ d], rule exI[of _ items], rule exI[of _ items'], rule exI[of _ clk1])
    apply (rule exI[of _ d1], rule exI[of _ turns], rule exI[of _ unique], rule exI[of _ sd])
    apply (rule exI[of _ r'])
    using d cv a(2) a(3) d1_def hist a(6) a(7) m1 st sd rec a(11) m' by simp
qed

lemma vocab_langs_Nil: "vocab_langs I items clk = Some (items', clk') \<Longrightarrow> (items' = []) = (items = [])"
  by (cases items) (auto split: option.splits prod.splits)

lemma dedup_user_twice:
  assumes run: "deduplicate_user I mem clk = Some (mem', clk')" and app: "app_user mem"
  shows "deduplicate_user I mem' c = Some (mem', c)"
proof -
  from dedup_user_unfold[OF run] obtain d items items' clk1 d1 turns unique sd r' where
    mem: "mem = JDict d"
    and cv: "(case map_of d ''custom_vocab'' of None \<Rightarrow> JDict [] | Some v \<Rightarrow> v) = JDict items"
    and langs: "vocab_langs I items clk = Some (items', clk1)"
    and d1: "d1 = (if items = [] then d else AList.update ''custom_vocab'' (JDict items') d)"
    and hist: "py_iter (case map_of d1 ''conversation_history'' of None \<Rightarrow> JList [] | Some v \<Rightarrow> v) = Some turns"
    and loop: "history_loop (JDict d1) turns {} [] clk1 = Some (unique, clk')"
    and stats: "map_of (AList.update ''conversation_history'' (JList (last_n 500 unique)) d1) ''stats''
              = Some (JDict sd)"
    and slice: "slice_last 200 (case map_of sd ''recent'' of None \<Rightarrow> JList [] | Some v \<Rightarrow> v) = Some r'"
    and mem': "mem' = JDict (AList.update ''stats'' (JDict (AList.update ''recent'' r' sd))
                     (AList.update ''conversation_history'' (JList (last_n 500 unique)) d1))"
    by blast
  define d3 where "d3 = AList.update ''stats'' (JDict (AList.update ''recent'' r' sd))
                     (AList.update ''conversation_history'' (JList (last_n 500 unique)) d1)"
  have cv1: "map_of d1 ''custom_vocab'' = (if items = [] then map_of d ''custom_vocab'' else Some (JDict items'))"
    by (simp add: d1 update_conv')
  have cv3: "map_of d3 ''custom_vocab'' = map_of d1 ''custom_vocab''"
    by (simp add: d3_def update_conv')
  have V: "(case map_of d3 ''custom_vocab'' of None \<Rightarrow> JDict [] | Some v \<Rightarrow> v) = JDict items'"
    using cv cv1 cv3 vocab_langs_Nil[OF langs] by (cases "items = []") auto
  have Vp: "items' \<noteq> [] \<Longrightarrow> map_of d3 ''custom_vocab'' = Some (JDict items')"
    using cv1 cv3 vocab_langs_Nil[OF langs] by simp
  have voc: "vocab_of mem = concat (map (\<lambda>lv. case py_iter (snd lv) of Some its \<Rightarrow> its | None \<Rightarrow> []) items)"
    using cv by (simp add: vocab_of_def mem)
  have "\<forall>lv \<in> set items. \<forall>its. py_iter (snd lv) = Some its \<longrightarrow> list_all int_level its"
  proof (intro ballI allI impI)
    fix lv its assume lv: "lv \<in> set items" and its: "py_iter (snd lv) = Some its"
    have "list_all int_level (vocab_of mem)" using app by (simp add: app_user_def)
    then have "\<forall>x \<in> set (vocab_of mem). int_level x" by (simp add: list_all_iff)
    moreover have "set its \<subseteq> set (vocab_of mem)" unfolding voc using lv its by force
    ultimately show "list_all int_level its" by (auto simp: list_all_iff)
  qed
  from vocab_langs_twice[OF langs this] have VL: "vocab_langs I items' c = Some (items', c)" .
  have H: "map_of d3 ''conversation_history'' = Some (JList (last_n 500 unique))"
    by (simp add: d3_def update_conv')
  have h1: "map_of d1 ''conversation_history'' = map_of d ''conversation_history''"
    by (simp add: d1 update_conv')
  have "history_of mem = turns" using hist h1 by (simp add: history_of_def mem)
  with app have plain: "list_all plain_turn turns" by (simp add: app_user_def)
  from history_loop_out_shape[OF loop plain] obtain rs where
    rs: "unique = rs"
    and b: "\<forall>r \<in> set rs. \<exists>u k. history_fields (JDict d1) r = Some (u, k) \<and> k \<notin> {}
                               \<and> (\<forall>c. rebuild_turn r u c = Some (r, c))"
    and dist: "distinct (map (\<lambda>r. map_option snd (history_fields (JDict d1) r)) rs)" by auto
  have lang: "get (JDict d3) ''lang'' = get (JDict d1) ''lang''"
    by (simp add: d3_def update_conv')
  have hf: "\<And>r. history_fields (JDict d3) r = history_fields (JDict d1) r"
    by (rule history_fields_cong_mem[OF lang])
  have HL: "history_loop (JDict d3) (last_n 500 unique) {} [] c = Some ([] @ last_n 500 unique, c)"
  proof (rule history_loop_fixed)
    show "\<forall>r\<in>set (last_n 500 unique). \<exists>u k. history_fields (JDict d3) r = Some (u, k)
             \<and> rebuild_turn r u c = Some (r, c) \<and> k \<notin> {}"
    proof
      fix r assume "r \<in> set (last_n 500 unique)"
      then have "r \<in> set rs" unfolding rs last_n_def by (rule in_set_dropD)
      with b hf show "\<exists>u k. history_fields (JDict d3) r = Some (u, k)
             \<and> rebuild_turn r u c = Some (r, c) \<and> k \<notin> {}" by auto
    qed
    have "distinct (drop (length rs - 500) (map (\<lambda>r. map_option snd (history_fields (JDict d1) r)) rs))"
      using dist by (rule distinct_drop)
    then show "distinct (map (\<lambda>r. map_option snd (history_fields (JDict d3) r)) (last_n 500 unique))"
      by (simp add: hf rs last_n_def drop_map)
  qed
  have Hn: "length (last_n 500 unique) \<le> 500" by (rule length_last_n)
  have S: "map_of d3 ''stats'' = Some (JDict (AList.update ''recent'' r' sd))"
    by (simp add: d3_def update_conv')
  have R: "map_of (AList.update ''recent'' r' sd) ''recent'' = Some r'"
    by (simp add: update_conv')
  have Rs: "slice_last 200 r' = Some r'" using slice by (rule slice_last_idem)
  have "deduplicate_user I (JDict d3) c = Some (JDict d3, c)"
    using V Vp VL H HL Hn S R Rs by (intro dedup_user_fixed[where items = items']) auto
  then show ?thesis by (simp add: mem' d3_def)
qed

lemma dedup_users_twice:
  assumes "dedup_users I items clk = Some (items', clk')" and "\<forall>uu \<in> set items. app_user (snd uu)"
  shows "dedup_users I items' c = Some (items', c)"
  using assms
proof (induction items arbitrary: clk items')
  case Nil
  then show ?case by simp
next
  case (Cons uu rest)
  from Cons.prems(1) obtain u' clk1 rest' where
    u: "deduplicate_user I (snd uu) clk = Some (u', clk1)"
    and r: "dedup_users I rest clk1 = Some (rest', clk')"
    and i: "items' = (fst uu, u') # rest'"
    by (auto split: option.splits prod.splits)
  have "deduplicate_user I u' c = Some (u', c)"
    using dedup_user_twice[OF u] Cons.prems(2) by simp
  moreover have "dedup_users I rest' c = Some (rest', c)"
    using Cons.IH[OF r] Cons.prems(2) by simp
  ultimately show ?case using i by simp
qed

text \<open>
  C3, amended. On a store of the shape the program writes (no history entry with a truthy
  \<^verbatim>\<open>ai\<close>, \<^verbatim>\<open>reply\<close> or \<^verbatim>\<open>lang\<close> value, every vocabulary level missing, null or an
  integer), the result of \<^verbatim>\<open>deduplicate_global\<close> is a fixed point: running
  \<^verbatim>\<open>deduplicate_global\<close> on it returns it unchanged and does not read the clock.
\<close>

theorem dedup_idempotent_app_written:
  assumes run: "deduplicate_global I store clk = Some (store1, clk1)" and app: "app_written store"
  shows "deduplicate_global I store1 c = Some (store1, c)"
proof -
  from run obtain d items items' where
    store: "store = JDict d"
    and users: "(case map_of d ''users'' of None \<Rightarrow> JDict [] | Some v \<Rightarrow> v) = JDict items"
    and du: "dedup_users I items clk = Some (items', clk1)"
    and s1: "store1 = JDict (AList.update ''users'' (JDict items') d)"
    unfolding deduplicate_global_def
    by (auto simp: bind_eq_Some_conv get_default_Some set_item_Some split: prod.splits)
  have "users_of store = map snd items" using users by (simp add: users_of_def store)
  with app have "\<forall>uu \<in> set items. app_user (snd uu)"
    by (simp add: app_written_def list_all_iff)
  from dedup_users_twice[OF du this] have "dedup_users I items' c = Some (items', c)" .
  then show ?thesis
    unfolding deduplicate_global_def s1 by (simp add: update_conv')
qed

theorem dedup_idempotent_app_written_witness:
  "app_written store_app
   \<and> deduplicate_global int_str_none store_app sample_clock = Some (store_app_deduped, sample_clock)
   \<and> deduplicate_global int_str_none store_app_deduped sample_clock
        = Some (store_app_deduped, sample_clock)"
proof -
  have h1: "app_written store_app"
    by (simp add: store_eval example_eval app_written_def app_user_def users_of_def history_of_def
        vocab_of_def plain_turn_def falsy_at_def int_level_def)
  have h2: "deduplicate_global int_str_none store_app sample_clock = Some (store_app_deduped, sample_clock)"
    by (simp add: store_eval example_eval dedup_eval string_eval)
  from dedup_idempotent_app_written[OF h2 h1, of sample_clock] h1 h2 show ?thesis by simp
qed

section \<open>The key of a history entry written by the practice handler\<close>

lemma practice_turn_fields:
  assumes lang: "get mem ''lang'' = Some ml" and h: "hash_key (py_or ml (JStr [])) = Some l"
  shows "history_fields mem (fst (practice_turn p x t s c)) = Some (strip x, normalize_str (strip x), [], l)"
  using assms
  by (cases "x = []") (auto simp: history_fields_def practice_turn_def py_or_def)

lemma practice_turn_rebuild:
  "rebuild_turn (fst (practice_turn p x t s c)) u c' =
     Some (history_record (fst (now_iso c)) (py_or p (JStr [])) u (py_or t (JStr [])) s, c')"
  by (simp add: rebuild_turn_def practice_turn_def or_now_def now_iso_def history_record_def)

text \<open>
  C2. The entry that the practice handler appends has no key \<^verbatim>\<open>ai\<close> and no key
  \<^verbatim>\<open>reply\<close>, so in the key that \<^verbatim>\<open>deduplicate_user\<close> computes for it the second
  component is the empty string; the first is the normalised answer and the third the
  user's language (the entry has no \<^verbatim>\<open>lang\<close> of its own). Hence two such entries have
  the same key exactly when their normalised answers and the languages are equal,
  whatever their \<^verbatim>\<open>target\<close>, \<^verbatim>\<open>prompt\<close>, \<^verbatim>\<open>score\<close> and \<^verbatim>\<open>when\<close>; and of two such entries
  in one history the loop keeps one when the normalised answers are equal and both
  otherwise.
\<close>

theorem practice_history_key:
  assumes lang1: "get mem1 ''lang'' = Some ml1" and h1: "hash_key (py_or ml1 (JStr [])) = Some l1"
      and lang2: "get mem2 ''lang'' = Some ml2" and h2: "hash_key (py_or ml2 (JStr [])) = Some l2"
  shows "py_in ''ai'' (fst (practice_turn p1 x1 t1 s1 c1)) = Some False
       \<and> py_in ''reply'' (fst (practice_turn p1 x1 t1 s1 c1)) = Some False
       \<and> history_fields mem1 (fst (practice_turn p1 x1 t1 s1 c1))
            = Some (strip x1, normalize_str (strip x1), [], l1)
       \<and> (map_option snd (history_fields mem1 (fst (practice_turn p1 x1 t1 s1 c1)))
            = map_option snd (history_fields mem2 (fst (practice_turn p2 x2 t2 s2 c2)))
          \<longleftrightarrow> normalize_str (strip x1) = normalize_str (strip x2) \<and> l1 = l2)
       \<and> (\<exists>out c'. history_loop mem1
                      [fst (practice_turn p1 x1 t1 s1 c1), fst (practice_turn p2 x2 t2 s2 c2)] {} [] c
                    = Some (out, c')
              \<and> length out = (if normalize_str (strip x1) = normalize_str (strip x2) then 1 else 2))"
proof -
  have a: "py_in ''ai'' (fst (practice_turn p1 x1 t1 s1 c1)) = Some False"
    and b: "py_in ''reply'' (fst (practice_turn p1 x1 t1 s1 c1)) = Some False"
    by (simp_all add: practice_turn_def)
  have f1: "history_fields mem1 (fst (practice_turn p1 x1 t1 s1 c1))
            = Some (strip x1, normalize_str (strip x1), [], l1)"
    by (rule practice_turn_fields[OF lang1 h1])
  have f2: "history_fields mem2 (fst (practice_turn p2 x2 t2 s2 c2))
            = Some (strip x2, normalize_str (strip x2), [], l2)"
    by (rule practice_turn_fields[OF lang2 h2])
  have f12: "history_fields mem1 (fst (practice_turn p2 x2 t2 s2 c2))
            = Some (strip x2, normalize_str (strip x2), [], l1)"
    by (rule practice_turn_fields[OF lang1 h1])
  have e: "(map_option snd (history_fields mem1 (fst (practice_turn p1 x1 t1 s1 c1)))
            = map_option snd (history_fields mem2 (fst (practice_turn p2 x2 t2 s2 c2)))
          \<longleftrightarrow> normalize_str (strip x1) = normalize_str (strip x2) \<and> l1 = l2)"
    by (simp add: f1 f2)
  have lp: "\<exists>out c'. history_loop mem1
                      [fst (practice_turn p1 x1 t1 s1 c1), fst (practice_turn p2 x2 t2 s2 c2)] {} [] c
                    = Some (out, c')
              \<and> length out = (if normalize_str (strip x1) = normalize_str (strip x2) then 1 else 2)"
    by (simp add: f1 f12 practice_turn_rebuild)
  from a b f1 e lp show ?thesis by blast
qed

theorem practice_history_key_witness:
  "get vocab_user ''lang'' = Some (JStr ''es'')
   \<and> hash_key (py_or (JStr ''es'') (JStr [])) = Some (HStr ''es'')
   \<and> history_fields vocab_user (fst (practice_turn (JStr ''hello'') ''Hola'' (JStr ''hola'') (JFloat 1) sample_clock))
        = Some (''Hola'', ''hola'', [], HStr ''es'')"
proof -
  have h1: "get vocab_user ''lang'' = Some (JStr ''es'')"
    by (simp add: vocab_user_def user_of_def)
  have h2: "hash_key (py_or (JStr ''es'') (JStr [])) = Some (HStr ''es'')"
    by (simp add: py_or_def)
  from practice_history_key[OF h1 h2 h1 h2, of "JStr ''hello''" "''Hola''" "JStr ''hola''" "JFloat 1" sample_clock]
  have "history_fields vocab_user (fst (practice_turn (JStr ''hello'') ''Hola'' (JStr ''hola'') (JFloat 1) sample_clock))
        = Some (strip ''Hola'', normalize_str (strip ''Hola''), [], HStr ''es'')" by blast
  with h1 h2 show ?thesis by (simp add: string_eval)
qed

section \<open>Merging\<close>

lemmas merge_eval =
  merge_def merge_step_def merge_user_def setdefault_extend_def
  store_small_def upload_ana_def upload_users_def upload_def store_merged_def

lemma list_items_Some [simp]: "list_items x = Some xs \<longleftrightarrow> x = JList xs"
  by (cases x) auto

lemma setdefault_extend_Some:
  assumes "setdefault_extend d k x = Some d'"
  shows "\<exists>al xs ys. d = JDict al \<and> (case map_of al k of None \<Rightarrow> JList [] | Some v \<Rightarrow> v) = JList xs
           \<and> py_iter x = Some ys \<and> d' = JDict (AList.update k (JList (xs @ ys)) al)"
  using assms unfolding setdefault_extend_def
  by (auto simp: bind_eq_Some_conv get_default_Some set_item_Some)

lemma merge_vocab_effect:
  assumes "merge_vocab e items = Some e'" and "distinct (map fst items)"
  shows "(\<forall>f. f \<noteq> ''custom_vocab'' \<longrightarrow> subscript e' f = subscript e f)
       \<and> (\<forall>lv \<in> set items. \<exists>xs ys. vocab_list e (fst lv) = Some xs \<and> py_iter (snd lv) = Some ys
              \<and> vocab_list e' (fst lv) = Some (xs @ ys))
       \<and> (\<forall>lang. lang \<notin> fst ` set items \<longrightarrow> vocab_list e' lang = vocab_list e lang)
       \<and> (items \<noteq> [] \<longrightarrow> (\<exists>al. e = JDict al))"
  using assms
proof (induction items arbitrary: e)
  case Nil
  then show ?case by simp
next
  case (Cons lv rest)
  from Cons.prems(1) obtain cv cv' e1 where
    cv: "get_default e ''custom_vocab'' (JDict []) = Some cv"
    and se: "setdefault_extend cv (fst lv) (snd lv) = Some cv'"
    and e1: "set_item e ''custom_vocab'' cv' = Some e1"
    and rest: "merge_vocab e1 rest = Some e'"
    by (auto simp: bind_eq_Some_conv)
  from e1 obtain al where e: "e = JDict al" and e1': "e1 = JDict (AList.update ''custom_vocab'' cv' al)"
    by (auto simp: set_item_Some)
  from setdefault_extend_Some[OF se] obtain cl xs ys where
    cvd: "cv = JDict cl" and xs: "(case map_of cl (fst lv) of None \<Rightarrow> JList [] | Some v \<Rightarrow> v) = JList xs"
    and ys: "py_iter (snd lv) = Some ys"
    and cv': "cv' = JDict (AList.update (fst lv) (JList (xs @ ys)) cl)" by blast
  have cval: "(case map_of al ''custom_vocab'' of None \<Rightarrow> JDict [] | Some v \<Rightarrow> v) = JDict cl"
    using cv e cvd by simp
  have vl_e: "\<And>lang. vocab_list e lang =
      list_items (case map_of cl lang of None \<Rightarrow> JList [] | Some v \<Rightarrow> v)"
    using cval by (simp add: vocab_list_def e)
  have vl_e1: "\<And>lang. vocab_list e1 lang =
      (if lang = fst lv then Some (xs @ ys) else vocab_list e lang)"
  proof -
    fix lang
    have "vocab_list e1 lang = list_items (case map_of (AList.update (fst lv) (JList (xs @ ys)) cl) lang
                                of None \<Rightarrow> JList [] | Some v \<Rightarrow> v)"
      by (simp add: vocab_list_def e1' cv' update_conv')
    then show "vocab_list e1 lang = (if lang = fst lv then Some (xs @ ys) else vocab_list e lang)"
      by (simp add: vl_e update_conv')
  qed
  have sub1: "\<And>f. f \<noteq> ''custom_vocab'' \<Longrightarrow> subscript e1 f = subscript e f"
    by (simp add: e e1' update_conv')
  have dr: "distinct (map fst rest)" and nin: "fst lv \<notin> fst ` set rest"
    using Cons.prems(2) by auto
  from Cons.IH[OF rest dr] have
    ih1: "\<forall>f. f \<noteq> ''custom_vocab'' \<longrightarrow> subscript e' f = subscript e1 f"
    and ih2: "\<forall>lv \<in> set rest. \<exists>xs ys. vocab_list e1 (fst lv) = Some xs \<and> py_iter (snd lv) = Some ys
              \<and> vocab_list e' (fst lv) = Some (xs @ ys)"
    and ih3: "\<forall>lang. lang \<notin> fst ` set rest \<longrightarrow> vocab_list e' lang = vocab_list e1 lang"
    by blast+
  have c1: "\<forall>f. f \<noteq> ''custom_vocab'' \<longrightarrow> subscript e' f = subscript e f"
    using ih1 sub1 by simp
  have head: "\<exists>xs' ys'. vocab_list e (fst lv) = Some xs' \<and> py_iter (snd lv) = Some ys'
              \<and> vocab_list e' (fst lv) = Some (xs' @ ys')"
    using ih3 nin vl_e1 vl_e xs ys by simp
  have tail: "\<forall>lv' \<in> set rest. \<exists>xs ys. vocab_list e (fst lv') = Some xs \<and> py_iter (snd lv') = Some ys
              \<and> vocab_list e' (fst lv') = Some (xs @ ys)"
  proof
    fix lv' assume m: "lv' \<in> set rest"
    then have "fst lv' \<in> fst ` set rest" by (rule imageI)
    with nin have "fst lv' \<noteq> fst lv" by metis
    with ih2 m vl_e1 show "\<exists>xs ys. vocab_list e (fst lv') = Some xs \<and> py_iter (snd lv') = Some ys
              \<and> vocab_list e' (fst lv') = Some (xs @ ys)" by auto
  qed
  have c3: "\<forall>lang. lang \<notin> fst ` set (lv # rest) \<longrightarrow> vocab_list e' lang = vocab_list e lang"
    using ih3 vl_e1 by simp
  show ?case using c1 head tail c3 e by simp
qed

lemma merge_vocab_frame:
  assumes "merge_vocab (JDict al) items = Some e'"
  shows "\<exists>al'. e' = JDict al' \<and> (\<forall>f. f \<noteq> ''custom_vocab'' \<longrightarrow> map_of al' f = map_of al f)"
  using assms
proof (induction items arbitrary: al)
  case Nil
  then show ?case by auto
next
  case (Cons lv rest)
  from Cons.prems obtain cv' where
    rest: "merge_vocab (JDict (AList.update ''custom_vocab'' cv' al)) rest = Some e'"
    by (auto simp: bind_eq_Some_conv)
  from Cons.IH[OF rest] show ?case by (auto simp: update_conv')
qed

lemma merge_user_effect:
  assumes "merge_user e v = Some e'"
  shows "(\<exists>xs ys. history_list e = Some xs
            \<and> Option.bind (get_default v ''conversation_history'' (JList [])) py_iter = Some ys
            \<and> history_list e' = Some (xs @ ys))
       \<and> (\<forall>vcv. get_default v ''custom_vocab'' (JDict []) = Some (JDict vcv) \<and> distinct (map fst vcv)
            \<longrightarrow> (\<forall>lv \<in> set vcv. \<exists>xs ys. vocab_list e (fst lv) = Some xs \<and> py_iter (snd lv) = Some ys
                     \<and> vocab_list e' (fst lv) = Some (xs @ ys))
              \<and> (\<forall>lang. lang \<notin> fst ` set vcv \<longrightarrow> vocab_list e' lang = vocab_list e lang))
       \<and> (\<forall>f. f \<noteq> ''conversation_history'' \<and> f \<noteq> ''custom_vocab'' \<longrightarrow> subscript e' f = subscript e f)"
proof -
  from assms obtain h e1 items where
    h: "get_default v ''conversation_history'' (JList []) = Some h"
    and se: "setdefault_extend e ''conversation_history'' h = Some e1"
    and cv: "get_default v ''custom_vocab'' (JDict []) = Some (JDict items)"
    and mv: "merge_vocab e1 items = Some e'"
    unfolding merge_user_def by (auto simp: bind_eq_Some_conv)
  from setdefault_extend_Some[OF se] obtain al xs ys where
    e: "e = JDict al"
    and xs: "(case map_of al ''conversation_history'' of None \<Rightarrow> JList [] | Some v \<Rightarrow> v) = JList xs"
    and ys: "py_iter h = Some ys"
    and e1: "e1 = JDict (AList.update ''conversation_history'' (JList (xs @ ys)) al)" by blast
  from merge_vocab_frame[OF mv[unfolded e1]] obtain al' where
    e': "e' = JDict al'"
    and fr: "\<forall>f. f \<noteq> ''custom_vocab'' \<longrightarrow>
               map_of al' f = map_of (AList.update ''conversation_history'' (JList (xs @ ys)) al) f"
    by blast
  have hl: "history_list e = Some xs" using xs by (simp add: history_list_def e)
  have hl': "history_list e' = Some (xs @ ys)"
    using fr by (simp add: history_list_def e' update_conv')
  have A: "\<exists>xs ys. history_list e = Some xs
            \<and> Option.bind (get_default v ''conversation_history'' (JList [])) py_iter = Some ys
            \<and> history_list e' = Some (xs @ ys)"
    using hl hl' h ys by simp
  have vl1: "\<And>lang. vocab_list e1 lang = vocab_list e lang"
    by (simp add: vocab_list_def e e1 update_conv')
  have B: "\<forall>vcv. get_default v ''custom_vocab'' (JDict []) = Some (JDict vcv) \<and> distinct (map fst vcv)
            \<longrightarrow> (\<forall>lv \<in> set vcv. \<exists>xs ys. vocab_list e (fst lv) = Some xs \<and> py_iter (snd lv) = Some ys
                     \<and> vocab_list e' (fst lv) = Some (xs @ ys))
              \<and> (\<forall>lang. lang \<notin> fst ` set vcv \<longrightarrow> vocab_list e' lang = vocab_list e lang)"
  proof (intro allI impI)
    fix vcv
    assume a: "get_default v ''custom_vocab'' (JDict []) = Some (JDict vcv) \<and> distinct (map fst vcv)"
    with cv have eq: "vcv = items" by simp
    from a eq have d: "distinct (map fst items)" by simp
    from merge_vocab_effect[OF mv d] show
      "(\<forall>lv \<in> set vcv. \<exists>xs ys. vocab_list e (fst lv) = Some xs \<and> py_iter (snd lv) = Some ys
                     \<and> vocab_list e' (fst lv) = Some (xs @ ys))
              \<and> (\<forall>lang. lang \<notin> fst ` set vcv \<longrightarrow> vocab_list e' lang = vocab_list e lang)"
      unfolding eq vl1 by blast
  qed
  have C: "\<forall>f. f \<noteq> ''conversation_history'' \<and> f \<noteq> ''custom_vocab'' \<longrightarrow> subscript e' f = subscript e f"
    using fr by (simp add: e e' update_conv')
  from A B C show ?thesis by blast
qed

lemma merge_step_users:
  assumes "merge_step g kv = Some g'"
  shows "\<exists>al us nv. g = JDict al
           \<and> (case map_of al ''users'' of None \<Rightarrow> JDict [] | Some w \<Rightarrow> w) = JDict us
           \<and> (case map_of us (fst kv) of None \<Rightarrow> Some (snd kv) | Some e \<Rightarrow> merge_user e (snd kv)) = Some nv
           \<and> g' = JDict (AList.update ''users'' (JDict (AList.update (fst kv) nv us)) al)"
proof -
  from assms obtain users us where
    u: "get_default g ''users'' (JDict []) = Some users" and ui: "dict_items users = Some us"
    and r: "(case map_of us (fst kv) of
               None \<Rightarrow> set_item g ''users'' (JDict (AList.update (fst kv) (snd kv) us))
             | Some existing \<Rightarrow> Option.bind (merge_user existing (snd kv))
                 (\<lambda>existing'. set_item g ''users'' (JDict (AList.update (fst kv) existing' us))))
            = Some g'"
    unfolding merge_step_def by (auto simp: bind_eq_Some_conv)
  from u obtain al where g: "g = JDict al"
    and users: "users = (case map_of al ''users'' of None \<Rightarrow> JDict [] | Some w \<Rightarrow> w)"
    by (auto simp: get_default_Some)
  from ui have ud: "users = JDict us" by simp
  show ?thesis
  proof (cases "map_of us (fst kv)")
    case None
    with r g have "g' = JDict (AList.update ''users'' (JDict (AList.update (fst kv) (snd kv) us)) al)"
      by simp
    with None g users ud show ?thesis
      by (intro exI[of _ al] exI[of _ us] exI[of _ "snd kv"]) simp
  next
    case (Some e)
    with r obtain e' where e': "merge_user e (snd kv) = Some e'"
      and "set_item g ''users'' (JDict (AList.update (fst kv) e' us)) = Some g'"
      by (auto simp: bind_eq_Some_conv)
    with g have "g' = JDict (AList.update ''users'' (JDict (AList.update (fst kv) e' us)) al)"
      by simp
    with Some e' g users ud show ?thesis
      by (intro exI[of _ al] exI[of _ us] exI[of _ e']) simp
  qed
qed

lemma merge_items_users:
  assumes "merge_items g items = Some g'" and "distinct (map fst items)"
      and "get_default g ''users'' (JDict []) = Some (JDict us)"
  shows "\<exists>us'. get_default g' ''users'' (JDict []) = Some (JDict us')
           \<and> (\<forall>kv \<in> set items. (\<exists>nv. map_of us' (fst kv) = Some nv
                  \<and> (case map_of us (fst kv) of None \<Rightarrow> Some (snd kv) | Some e \<Rightarrow> merge_user e (snd kv))
                      = Some nv))
           \<and> (\<forall>k. k \<notin> fst ` set items \<longrightarrow> map_of us' k = map_of us k)"
  using assms
proof (induction items arbitrary: g us)
  case Nil
  then show ?case by simp
next
  case (Cons kv rest)
  from Cons.prems(1) obtain g1 where st: "merge_step g kv = Some g1"
    and rest: "merge_items g1 rest = Some g'" by (auto simp: bind_eq_Some_conv)
  from merge_step_users[OF st] obtain al us0 nv where
    g: "g = JDict al"
    and us0: "(case map_of al ''users'' of None \<Rightarrow> JDict [] | Some w \<Rightarrow> w) = JDict us0"
    and nv: "(case map_of us0 (fst kv) of None \<Rightarrow> Some (snd kv) | Some e \<Rightarrow> merge_user e (snd kv)) = Some nv"
    and g1: "g1 = JDict (AList.update ''users'' (JDict (AList.update (fst kv) nv us0)) al)" by blast
  have useq: "us0 = us" using Cons.prems(3) g us0 by simp
  define us1 where "us1 = AList.update (fst kv) nv us"
  have gd1: "get_default g1 ''users'' (JDict []) = Some (JDict us1)"
    by (simp add: g1 us1_def useq update_conv')
  have dr: "distinct (map fst rest)" and nin: "fst kv \<notin> fst ` set rest"
    using Cons.prems(2) by auto
  from Cons.IH[OF rest dr gd1] obtain us' where
    a: "get_default g' ''users'' (JDict []) = Some (JDict us')"
    and b: "\<forall>kv' \<in> set rest. (\<exists>nv. map_of us' (fst kv') = Some nv
                  \<and> (case map_of us1 (fst kv') of None \<Rightarrow> Some (snd kv') | Some e \<Rightarrow> merge_user e (snd kv'))
                      = Some nv)"
    and c: "\<forall>k. k \<notin> fst ` set rest \<longrightarrow> map_of us' k = map_of us1 k" by blast
  have m1: "\<And>k. map_of us1 k = (if k = fst kv then Some nv else map_of us k)"
    by (simp add: us1_def update_conv')
  have head: "(\<exists>nv. map_of us' (fst kv) = Some nv
                  \<and> (case map_of us (fst kv) of None \<Rightarrow> Some (snd kv) | Some e \<Rightarrow> merge_user e (snd kv))
                      = Some nv)"
    using c nin m1 nv useq by simp
  have tail: "\<forall>kv' \<in> set rest. (\<exists>nv. map_of us' (fst kv') = Some nv
                  \<and> (case map_of us (fst kv') of None \<Rightarrow> Some (snd kv') | Some e \<Rightarrow> merge_user e (snd kv'))
                      = Some nv)"
  proof
    fix kv' assume m: "kv' \<in> set rest"
    then have "fst kv' \<in> fst ` set rest" by (rule imageI)
    with nin have "fst kv' \<noteq> fst kv" by metis
    then have same: "map_of us1 (fst kv') = map_of us (fst kv')" by (simp add: m1)
    from b m have "(\<exists>nv. map_of us' (fst kv') = Some nv
                  \<and> (case map_of us1 (fst kv') of None \<Rightarrow> Some (snd kv') | Some e \<Rightarrow> merge_user e (snd kv'))
                      = Some nv)" by (rule bspec)
    then show "(\<exists>nv. map_of us' (fst kv') = Some nv
                  \<and> (case map_of us (fst kv') of None \<Rightarrow> Some (snd kv') | Some e \<Rightarrow> merge_user e (snd kv'))
                      = Some nv)" unfolding same .
  qed
  have frame: "\<forall>k. k \<notin> fst ` set (kv # rest) \<longrightarrow> map_of us' k = map_of us k"
    using c m1 by simp
  show ?case using a head tail frame by auto
qed

text \<open>
  C8. Let the merge of an uploaded document succeed, let \<open>items\<close> be the users of the upload
  and \<open>(k, v)\<close> one of them. If \<open>k\<close> is not a user of the store, the merged store has
  \<open>v\<close> itself under \<open>k\<close>. If \<open>k\<close> is the user \<open>e\<close> of the store, the merged store has a
  record \<open>e'\<close> under \<open>k\<close> whose history is the history of \<open>e\<close> followed by the history
  of \<open>v\<close>, whose vocabulary list of every language of \<open>v\<close> is the list of \<open>e\<close> followed by
  the list of \<open>v\<close> (nothing is dropped or compared), whose other vocabulary lists are
  those of \<open>e\<close>, and in which every key other than \<^verbatim>\<open>conversation_history\<close> and
  \<^verbatim>\<open>custom_vocab\<close> (so \<^verbatim>\<open>level\<close>, \<^verbatim>\<open>stats\<close>, \<^verbatim>\<open>name\<close>, \<^verbatim>\<open>lang\<close>) has the value it has in
  \<open>e\<close>. Users that the upload does not name are untouched. The keys of a Python dict
  are distinct; for the association lists of the model this is a hypothesis.
\<close>

theorem merge_inserts_or_appends:
  assumes m: "merge global_data rd = Some g'"
      and src: "get_default rd ''users'' rd = Some (JDict items)"
      and dist: "distinct (map fst items)"
      and kv: "(k, v) \<in> set items"
  shows "\<exists>us us'. get_default global_data ''users'' (JDict []) = Some (JDict us)
          \<and> get_default g' ''users'' (JDict []) = Some (JDict us')
          \<and> (case map_of us k of
                None \<Rightarrow> map_of us' k = Some v
              | Some e \<Rightarrow> (\<exists>e'. map_of us' k = Some e'
                  \<and> (\<exists>xs ys. history_list e = Some xs
                        \<and> Option.bind (get_default v ''conversation_history'' (JList [])) py_iter = Some ys
                        \<and> history_list e' = Some (xs @ ys))
                  \<and> (\<forall>vcv. get_default v ''custom_vocab'' (JDict []) = Some (JDict vcv)
                             \<and> distinct (map fst vcv)
                        \<longrightarrow> (\<forall>lv \<in> set vcv. \<exists>xs ys. vocab_list e (fst lv) = Some xs
                                 \<and> py_iter (snd lv) = Some ys
                                 \<and> vocab_list e' (fst lv) = Some (xs @ ys))
                          \<and> (\<forall>lang. lang \<notin> fst ` set vcv \<longrightarrow> vocab_list e' lang = vocab_list e lang))
                  \<and> (\<forall>f. f \<noteq> ''conversation_history'' \<and> f \<noteq> ''custom_vocab''
                        \<longrightarrow> subscript e' f = subscript e f)))
          \<and> (\<forall>k'. k' \<notin> fst ` set items \<longrightarrow> map_of us' k' = map_of us k')"
proof -
  from m src have mi: "merge_items global_data items = Some g'"
    unfolding merge_def by simp
  from kv obtain kv0 rest where items: "items = kv0 # rest" by (cases items) auto
  from mi[unfolded items] obtain g1 where "merge_step global_data kv0 = Some g1"
    by (auto simp: bind_eq_Some_conv)
  from merge_step_users[OF this] obtain us where
    us: "get_default global_data ''users'' (JDict []) = Some (JDict us)" by auto
  from merge_items_users[OF mi dist us] obtain us' where
    a: "get_default g' ''users'' (JDict []) = Some (JDict us')"
    and b: "\<forall>kv \<in> set items. (\<exists>nv. map_of us' (fst kv) = Some nv
                  \<and> (case map_of us (fst kv) of None \<Rightarrow> Some (snd kv) | Some e \<Rightarrow> merge_user e (snd kv))
                      = Some nv)"
    and c: "\<forall>k. k \<notin> fst ` set items \<longrightarrow> map_of us' k = map_of us k" by blast
  from b kv have "\<exists>nv. map_of us' (fst (k, v)) = Some nv
                  \<and> (case map_of us (fst (k, v)) of None \<Rightarrow> Some (snd (k, v))
                     | Some e \<Rightarrow> merge_user e (snd (k, v))) = Some nv" by (rule bspec)
  then have "\<exists>nv. map_of us' k = Some nv
                  \<and> (case map_of us k of None \<Rightarrow> Some v | Some e \<Rightarrow> merge_user e v) = Some nv"
    by (simp only: fst_conv snd_conv)
  then obtain nv where mk: "map_of us' k = Some nv"
    and bk: "(case map_of us k of None \<Rightarrow> Some v | Some e \<Rightarrow> merge_user e v) = Some nv"
    by blast
  have mid: "(case map_of us k of
                None \<Rightarrow> map_of us' k = Some v
              | Some e \<Rightarrow> (\<exists>e'. map_of us' k = Some e'
                  \<and> (\<exists>xs ys. history_list e = Some xs
                        \<and> Option.bind (get_default v ''conversation_history'' (JList [])) py_iter = Some ys
                        \<and> history_list e' = Some (xs @ ys))
                  \<and> (\<forall>vcv. get_default v ''custom_vocab'' (JDict []) = Some (JDict vcv)
                             \<and> distinct (map fst vcv)
                        \<longrightarrow> (\<forall>lv \<in> set vcv. \<exists>xs ys. vocab_list e (fst lv) = Some xs
                                 \<and> py_iter (snd lv) = Some ys
                                 \<and> vocab_list e' (fst lv) = Some (xs @ ys))
                          \<and> (\<forall>lang. lang \<notin> fst ` set vcv \<longrightarrow> vocab_list e' lang = vocab_list e lang))
                  \<and> (\<forall>f. f \<noteq> ''conversation_history'' \<and> f \<noteq> ''custom_vocab''
                        \<longrightarrow> subscript e' f = subscript e f)))"
  proof (cases "map_of us k")
    case None
    with bk mk show ?thesis by simp
  next
    case (Some e)
    with bk have e': "merge_user e v = Some nv" by simp
    note eff = merge_user_effect[OF e']
    show ?thesis unfolding Some option.case
      by (intro exI[of _ nv] conjI mk eff[THEN conjunct1] eff[THEN conjunct2, THEN conjunct1]
          eff[THEN conjunct2, THEN conjunct2])
  qed
  from us a mid c show ?thesis by blast
qed

theorem merge_inserts_or_appends_witness:
  "merge store_small upload = Some store_merged
   \<and> get_default upload ''users'' upload = Some (JDict upload_users)
   \<and> distinct (map fst upload_users)
   \<and> (''ana'', upload_ana) \<in> set upload_users
   \<and> (\<exists>us'. get_default store_merged ''users'' (JDict []) = Some (JDict us')
         \<and> (\<exists>e'. map_of us' ''ana'' = Some e'
               \<and> history_list e' = Some [app_turn ''2024-03-01T09:00:00Z'' ''Hola'' ''hola'',
                                         app_turn ''2024-03-02T09:00:00Z'' ''hola'' ''hola'']
               \<and> subscript e' ''level'' = Some (JInt 1)))"
proof -
  have h1: "merge store_small upload = Some store_merged"
    by (simp add: merge_eval store_eval user_of_def)
  have h2: "get_default upload ''users'' upload = Some (JDict upload_users)"
    by (simp add: upload_def)
  have h3: "distinct (map fst upload_users)"
    by (simp add: upload_users_def)
  have h4: "(''ana'', upload_ana) \<in> set upload_users"
    by (simp add: upload_users_def)
  have c: "\<exists>us'. get_default store_merged ''users'' (JDict []) = Some (JDict us')
         \<and> (\<exists>e'. map_of us' ''ana'' = Some e'
               \<and> history_list e' = Some [app_turn ''2024-03-01T09:00:00Z'' ''Hola'' ''hola'',
                                         app_turn ''2024-03-02T09:00:00Z'' ''hola'' ''hola'']
               \<and> subscript e' ''level'' = Some (JInt 1))"
    using merge_inserts_or_appends[OF h1 h2 h3 h4]
    by (simp add: store_merged_def user_of_def history_list_def)
  from h1 h2 h3 h4 c show ?thesis by blast
qed

end
